theory Spec2Isabelle
  imports Complex_Main
begin

section \<open>Exceptions\<close>

text \<open>
  The exceptions that the handlers of \<^verbatim>\<open>cloud_simulation_api.py\<close> raise or catch.
  \<open>HTTPException\<close> carries its status code and its detail; the detail of the exception
  raised by the \<^verbatim>\<open>except Exception as e\<close> handler of \<^verbatim>\<open>start_scenario\<close> is
  \<^verbatim>\<open>str(e)\<close>, kept symbolic as \<open>Str e\<close>. \<open>ValueError\<close> is what \<^verbatim>\<open>list.remove\<close>
  raises on a missing element, \<open>SendError\<close> stands for any exception raised by
  \<^verbatim>\<open>send_text\<close> on a closed or broken transport.
\<close>

datatype exn =
    HTTPException nat detail
  | ValueError
  | SendError
and detail =
    Text string
  | Str exn

section \<open>The subscriber registry: WebSocketManager\<close>

text \<open>
  A websocket is an opaque connection handle. Python compares the handles by identity
  (\<^verbatim>\<open>in\<close> and \<^verbatim>\<open>remove\<close> on the list), which is equality of the handle here.
\<close>

type_synonym websocket = nat

record WebSocketManager =
  active_connections :: "websocket list"

text \<open>\<^verbatim>\<open>list.remove(x)\<close>: drops the first occurrence, raises ValueError when there is none.\<close>

fun list_remove :: "'a \<Rightarrow> 'a list \<Rightarrow> exn + 'a list" where
  "list_remove x [] = Inl ValueError"
| "list_remove x (y # ys) =
     (if x = y then Inr ys
      else (case list_remove x ys of Inl e \<Rightarrow> Inl e | Inr zs \<Rightarrow> Inr (y # zs)))"

text \<open>
  \<^verbatim>\<open>connect\<close>: the websocket is accepted, which is taken to succeed, and appended to
  the list.
\<close>

definition connect :: "websocket \<Rightarrow> WebSocketManager \<Rightarrow> WebSocketManager" where
  "connect ws m = m\<lparr>active_connections := active_connections m @ [ws]\<rparr>"

text \<open>\<^verbatim>\<open>disconnect\<close>: the removal is guarded by the membership test.\<close>

definition disconnect :: "websocket \<Rightarrow> WebSocketManager \<Rightarrow> exn + WebSocketManager" where
  "disconnect ws m =
     (if ws \<in> set (active_connections m)
      then (case list_remove ws (active_connections m) of
              Inl e \<Rightarrow> Inl e
            | Inr cs \<Rightarrow> Inr (m\<lparr>active_connections := cs\<rparr>))
      else Inr m)"

text \<open>
  What other tasks do to the registry while a broadcast is suspended at an
  \<^verbatim>\<open>await\<close>: the websocket handler registers a new connection or removes one that has
  closed.
\<close>

datatype registry_op = Connect websocket | Disconnect websocket

fun apply_op :: "registry_op \<Rightarrow> WebSocketManager \<Rightarrow> WebSocketManager" where
  "apply_op (Connect ws) m = connect ws m"
| "apply_op (Disconnect ws) m = (case disconnect ws m of Inl e \<Rightarrow> m | Inr m' \<Rightarrow> m')"

fun apply_ops :: "registry_op list \<Rightarrow> WebSocketManager \<Rightarrow> WebSocketManager" where
  "apply_ops [] m = m"
| "apply_ops (op # ops) m = apply_ops ops (apply_op op m)"

text \<open>
  A list of operation lists gives, for every \<^verbatim>\<open>await\<close> of a broadcast in order,
  the operations that other tasks perform on the registry during it; \<open>during\<close> takes
  those of the next \<^verbatim>\<open>await\<close>, and past the end of the list nothing happens.
\<close>

fun during :: "registry_op list list \<Rightarrow> registry_op list" where
  "during [] = []"
| "during (ops # rest) = ops"

text \<open>
  \<^verbatim>\<open>broadcast\<close>, first loop: \<^verbatim>\<open>for connection in self.active_connections\<close> walks the
  list itself by index \<open>i\<close>, not a copy: each round tests the index against the length
  the list has then and takes the entry at the index. \<^verbatim>\<open>send_text\<close> is awaited, the
  other tasks run meanwhile, an exception of the send is caught and the connection
  appended to \<^verbatim>\<open>disconnected\<close>. The transport is the parameter \<open>send\<close>. The list
  \<open>attempted\<close> logs the calls of \<^verbatim>\<open>send_text\<close> in order.
\<close>

function send_loop ::
  "(websocket \<Rightarrow> 'm \<Rightarrow> exn + unit) \<Rightarrow> 'm \<Rightarrow> registry_op list list \<Rightarrow> nat \<Rightarrow>
   websocket list \<Rightarrow> websocket list \<Rightarrow> WebSocketManager \<Rightarrow>
   websocket list \<times> websocket list \<times> WebSocketManager" where
  "send_loop send msg others i attempted disconnected m =
     (if i < length (active_connections m) then
        (case send (active_connections m ! i) msg of
           Inr _ \<Rightarrow>
             send_loop send msg (tl others) (i + 1)
               (attempted @ [active_connections m ! i]) disconnected
               (apply_ops (during others) m)
         | Inl e \<Rightarrow>
             send_loop send msg (tl others) (i + 1)
               (attempted @ [active_connections m ! i])
               (disconnected @ [active_connections m ! i])
               (apply_ops (during others) m))
      else (attempted, disconnected, m))"
  by pat_completeness auto
termination
proof (relation "measures
    [\<lambda>(send, msg, others, i, attempted, disconnected, m). length others,
     \<lambda>(send, msg, others, i, attempted, disconnected, m).
        length (active_connections m) - i]", goal_cases)
  case 1
  show ?case by simp
next
  case (2 send msg others i attempted disconnected m e)
  then show ?case by (cases others) simp_all
next
  case (3 send msg others i attempted disconnected m u)
  then show ?case by (cases others) simp_all
qed

declare send_loop.simps [simp del]

text \<open>\<^verbatim>\<open>broadcast\<close>, second loop: \<^verbatim>\<open>for conn in disconnected: self.disconnect(conn)\<close>.\<close>

fun disconnect_each :: "websocket list \<Rightarrow> WebSocketManager \<Rightarrow> exn + WebSocketManager" where
  "disconnect_each [] m = Inr m"
| "disconnect_each (c # cs) m =
     (case disconnect c m of Inl e \<Rightarrow> Inl e | Inr m' \<Rightarrow> disconnect_each cs m')"

text \<open>
  The surroundings of one broadcast: what the transport answers to each
  \<^verbatim>\<open>send_text\<close>, and what the other tasks do to the registry during each
  \<^verbatim>\<open>await\<close> of the pass. \<^verbatim>\<open>broadcast\<close> returns the log of the deliveries it
  attempted and the manager; \<open>Inl\<close> would be an exception that leaves
  \<^verbatim>\<open>broadcast\<close>. The second loop has no \<^verbatim>\<open>await\<close>.
\<close>

record 'm network =
  send_text :: "websocket \<Rightarrow> 'm \<Rightarrow> exn + unit"
  others :: "registry_op list list"

definition broadcast ::
  "'m network \<Rightarrow> 'm \<Rightarrow> WebSocketManager \<Rightarrow> exn + (websocket list \<times> WebSocketManager)" where
  "broadcast net msg m =
     (if active_connections m \<noteq> []
      then (case send_loop (send_text net) msg (others net) 0 [] [] m of
              (attempted, disconnected, m1) \<Rightarrow>
                (case disconnect_each disconnected m1 of
                   Inl e \<Rightarrow> Inl e
                 | Inr m' \<Rightarrow> Inr (attempted, m')))
      else Inr ([], m))"

definition send_ok :: "(websocket \<Rightarrow> 'm \<Rightarrow> exn + unit) \<Rightarrow> 'm \<Rightarrow> websocket \<Rightarrow> bool" where
  "send_ok send msg c = (case send c msg of Inr _ \<Rightarrow> True | Inl _ \<Rightarrow> False)"

text \<open>The deliveries that a broadcast attempts.\<close>

definition attempts :: "'m network \<Rightarrow> 'm \<Rightarrow> WebSocketManager \<Rightarrow> websocket list" where
  "attempts net msg m = (case broadcast net msg m of Inr (attempted, m') \<Rightarrow> attempted | Inl e \<Rightarrow> [])"

section \<open>The simulation state\<close>

text \<open>
  The global \<^verbatim>\<open>simulation_state\<close> dictionary and the dictionaries stored in it, with
  their fixed keys as record fields. Python floats are taken as reals, Python integers
  as integers.
\<close>

record metrics_dict =
  cpu_utilization :: real
  ram_usage :: real
  storage_usage :: real
  bandwidth_usage :: real
  vm_migration_count :: int

record zone_dict =
  vm_count :: int
  utilization :: real

record zone_status_dict =
  high_resource_slow :: zone_dict
  medium :: zone_dict
  fast_small :: zone_dict

record VirtualMachine =
  vm_id :: string
  cpu_req :: real
  ram_req :: real
  storage_req :: real
  bandwidth_req :: real
  current_zone :: "string option"
  vm_host_id :: "string option"
  migration_count :: int

record host_zone =
  zone_vms :: "string list"
  cpu_allocation :: int
  ram_allocation :: int

record Host =
  host_id :: string
  total_cpu :: int
  total_ram :: int
  total_storage :: int
  total_bandwidth :: int
  available_cpu :: int
  available_ram :: int
  available_storage :: int
  available_bandwidth :: int
  zones :: "(string \<times> host_zone) list"

record simulation_state =
  running :: bool
  scenario :: string
  metrics :: metrics_dict
  zone_status :: zone_status_dict
  vms :: "VirtualMachine list"
  hosts :: "Host list"

text \<open>The module-level initial value of \<^verbatim>\<open>simulation_state\<close>.\<close>

definition zero_metrics :: metrics_dict where
  "zero_metrics =
     \<lparr>cpu_utilization = 0.0, ram_usage = 0.0, storage_usage = 0.0, bandwidth_usage = 0.0,
      vm_migration_count = 0\<rparr>"

definition zero_zone_status :: zone_status_dict where
  "zero_zone_status =
     \<lparr>high_resource_slow = \<lparr>vm_count = 0, utilization = 0.0\<rparr>,
      medium = \<lparr>vm_count = 0, utilization = 0.0\<rparr>,
      fast_small = \<lparr>vm_count = 0, utilization = 0.0\<rparr>\<rparr>"

definition initial_simulation_state :: simulation_state where
  "initial_simulation_state =
     \<lparr>running = False, scenario = ''idle'', metrics = zero_metrics,
      zone_status = zero_zone_status, vms = [], hosts = []\<rparr>"

section \<open>Library functions\<close>

text \<open>
  The random numbers of one scenario step are inputs of the model. \<open>normal_z d k\<close> is
  the standard normal deviate behind the \<open>k\<close>-th call of \<^verbatim>\<open>np.random.normal\<close> in the
  step (any real), \<open>random_u d\<close> the value of \<^verbatim>\<open>np.random.random()\<close>, \<open>randint_r d k\<close>
  the raw random number behind the \<open>k\<close>-th call of \<^verbatim>\<open>np.random.randint\<close>, and
  \<open>now d\<close> the text of \<^verbatim>\<open>datetime.now().isoformat()\<close>.
\<close>

record draws =
  normal_z :: "nat \<Rightarrow> real"
  random_u :: real
  randint_r :: "nat \<Rightarrow> nat"
  now :: string

text \<open>\<^verbatim>\<open>np.random.normal(loc, scale)\<close>.\<close>

definition normal :: "real \<Rightarrow> real \<Rightarrow> real \<Rightarrow> real" where
  "normal loc scale z = loc + scale * z"

text \<open>\<^verbatim>\<open>np.random.randint(low, high)\<close>: an integer of the half-open range from low to high.\<close>

definition randint :: "int \<Rightarrow> int \<Rightarrow> nat \<Rightarrow> int" where
  "randint low high r = low + int (r mod nat (high - low))"

text \<open>\<^verbatim>\<open>int(x)\<close> on a float truncates towards zero.\<close>

definition py_int :: "real \<Rightarrow> int" where
  "py_int x = (if 0 \<le> x then \<lfloor>x\<rfloor> else \<lceil>x\<rceil>)"

text \<open>The decimal text of an integer, as an f-string prints it.\<close>

definition digit_char :: "nat \<Rightarrow> char" where
  "digit_char d = ''0123456789'' ! d"

fun str_nat :: "nat \<Rightarrow> string" where
  "str_nat n = (if n < 10 then [digit_char n] else str_nat (n div 10) @ [digit_char (n mod 10)])"

definition str_int :: "int \<Rightarrow> string" where
  "str_int i = (if i < 0 then CHR ''-'' # str_nat (nat (- i)) else str_nat (nat i))"

section \<open>Inventory\<close>

text \<open>The constructors \<^verbatim>\<open>VirtualMachine.__init__\<close> and \<^verbatim>\<open>Host.__init__\<close>.\<close>

definition VirtualMachine_init :: "string \<Rightarrow> real \<Rightarrow> real \<Rightarrow> real \<Rightarrow> real \<Rightarrow> VirtualMachine" where
  "VirtualMachine_init vid cpu ram storage bandwidth =
     \<lparr>vm_id = vid, cpu_req = cpu, ram_req = ram, storage_req = storage,
      bandwidth_req = bandwidth, current_zone = None, vm_host_id = None,
      migration_count = 0\<rparr>"

definition Host_init :: "string \<Rightarrow> int \<Rightarrow> int \<Rightarrow> int \<Rightarrow> int \<Rightarrow> Host" where
  "Host_init hid cpu ram storage bandwidth =
     \<lparr>host_id = hid, total_cpu = cpu, total_ram = ram, total_storage = storage,
      total_bandwidth = bandwidth, available_cpu = cpu, available_ram = ram,
      available_storage = storage, available_bandwidth = bandwidth,
      zones =
        [(''high_resource_slow'', \<lparr>zone_vms = [], cpu_allocation = 0, ram_allocation = 0\<rparr>),
         (''medium'', \<lparr>zone_vms = [], cpu_allocation = 0, ram_allocation = 0\<rparr>),
         (''fast_small'', \<lparr>zone_vms = [], cpu_allocation = 0, ram_allocation = 0\<rparr>)]\<rparr>"

text \<open>
  \<^verbatim>\<open>initialize_simulation\<close>: five hosts and fifteen VMs. \<open>z i k\<close> is the deviate behind
  the \<open>k\<close>-th call of \<^verbatim>\<open>np.random.normal\<close> for the VM of index \<open>i\<close>.
\<close>

definition make_host :: "nat \<Rightarrow> Host" where
  "make_host i = Host_init (''Host_'' @ str_nat i) 200 16000 500000 1000"

definition make_vm :: "(nat \<Rightarrow> nat \<Rightarrow> real) \<Rightarrow> nat \<Rightarrow> VirtualMachine" where
  "make_vm z i =
     (let cpu_req' = max 10 (normal 50 20 (z i 0));
          ram_req' = max 1000 (normal 4000 1500 (z i 1));
          storage_req' = max 10000 (normal 50000 20000 (z i 2));
          bandwidth_req' = max 10 (normal 100 30 (z i 3))
      in VirtualMachine_init (''VM_'' @ str_nat i) cpu_req' ram_req' storage_req' bandwidth_req')"

definition initialize_simulation ::
  "(nat \<Rightarrow> nat \<Rightarrow> real) \<Rightarrow> simulation_state \<Rightarrow> simulation_state" where
  "initialize_simulation z s =
     s\<lparr>hosts := map make_host [0..<5], vms := map (make_vm z) [0..<15]\<rparr>"

section \<open>The scenario steppers\<close>

text \<open>
  One iteration of the loop of \<^verbatim>\<open>scenario_1_high_load\<close>: the new metrics and zone
  status written to the state. The calls of \<^verbatim>\<open>np.random.normal\<close> and
  \<^verbatim>\<open>np.random.randint\<close> are numbered in the order the iteration makes them.
\<close>

definition scenario_1_high_load_step :: "nat \<Rightarrow> draws \<Rightarrow> simulation_state \<Rightarrow> simulation_state" where
  "scenario_1_high_load_step step d s =
     (let cpu_util = min 95 (60 + real step * 1.2 + normal 0 5 (normal_z d 0));
          ram_usage' = min 90 (50 + real step * 1.0 + normal 0 3 (normal_z d 1));
          storage_usage' = min 85 (40 + real step * 0.8 + normal 0 2 (normal_z d 2));
          bandwidth_usage' = min 80 (35 + real step * 0.6 + normal 0 4 (normal_z d 3));
          migration_count0 = vm_migration_count (metrics s);
          migration_count' =
            (if cpu_util > 80 \<and> random_u d < 0.3 then migration_count0 + 1
             else migration_count0)
      in s\<lparr>metrics :=
             \<lparr>cpu_utilization = max 0 cpu_util,
              ram_usage = max 0 ram_usage',
              storage_usage = max 0 storage_usage',
              bandwidth_usage = max 0 bandwidth_usage',
              vm_migration_count = migration_count'\<rparr>,
           zone_status :=
             \<lparr>high_resource_slow =
                \<lparr>vm_count = max 0 (8 + randint (- 2) 3 (randint_r d 0)),
                 utilization = min 100 (cpu_util + normal 0 10 (normal_z d 4))\<rparr>,
              medium =
                \<lparr>vm_count = max 0 (5 + randint (- 1) 2 (randint_r d 1)),
                 utilization = min 100 (cpu_util * 0.7 + normal 0 5 (normal_z d 5))\<rparr>,
              fast_small =
                \<lparr>vm_count = max 0 (2 + randint (- 1) 2 (randint_r d 2)),
                 utilization = min 100 (cpu_util * 0.4 + normal 0 3 (normal_z d 6))\<rparr>\<rparr>\<rparr>)"

text \<open>One iteration of the loop of \<^verbatim>\<open>scenario_2_zone_migration\<close>.\<close>

definition scenario_2_zone_migration_step :: "nat \<Rightarrow> draws \<Rightarrow> simulation_state \<Rightarrow> simulation_state" where
  "scenario_2_zone_migration_step step d s =
     (let high_zone_load =
            (if step < 10 then 90 - real step * 2 else max 40 (70 - (real step - 10) * 2));
          medium_zone_load =
            (if step < 10 then 40 + real step * 3 else min 80 (60 + (real step - 10) * 1));
          fast_zone_load =
            (if step < 10 then 20 + real step * 1 else min 60 (30 + (real step - 10) * 1.5));
          migration_count0 = vm_migration_count (metrics s);
          migration_count' =
            (if step \<ge> 8 \<and> step \<le> 15 then migration_count0 + randint 1 4 (randint_r d 0)
             else migration_count0);
          avg_utilization = (high_zone_load + medium_zone_load + fast_zone_load) / 3
      in s\<lparr>metrics :=
             \<lparr>cpu_utilization = avg_utilization,
              ram_usage = avg_utilization * 0.9,
              storage_usage = avg_utilization * 0.7,
              bandwidth_usage = avg_utilization * 0.6,
              vm_migration_count = migration_count'\<rparr>,
           zone_status :=
             \<lparr>high_resource_slow =
                \<lparr>vm_count = max 2 (py_int (8 - real step * 0.2)),
                 utilization = max 0 high_zone_load\<rparr>,
              medium =
                \<lparr>vm_count = max 3 (py_int (5 + real step * 0.1)),
                 utilization = max 0 medium_zone_load\<rparr>,
              fast_small =
                \<lparr>vm_count = max 1 (py_int (2 + real step * 0.1)),
                 utilization = max 0 fast_zone_load\<rparr>\<rparr>\<rparr>)"

text \<open>One iteration of the loop of \<^verbatim>\<open>scenario_3_resource_scaling\<close>.\<close>

definition scenario_3_resource_scaling_step :: "nat \<Rightarrow> draws \<Rightarrow> simulation_state \<Rightarrow> simulation_state" where
  "scenario_3_resource_scaling_step step d s =
     (let scale_factor = 1 + 0.5 * sin (real step * 0.3);
          base_cpu = 45 * scale_factor + normal 0 5 (normal_z d 0);
          base_ram = 50 * scale_factor + normal 0 3 (normal_z d 1);
          base_storage = 35 * scale_factor + normal 0 4 (normal_z d 2);
          base_bandwidth = 40 * scale_factor + normal 0 6 (normal_z d 3);
          total_utilization = (base_cpu + base_ram + base_storage + base_bandwidth) / 4
      in s\<lparr>metrics :=
             \<lparr>cpu_utilization = min 100 (max 0 base_cpu),
              ram_usage = min 100 (max 0 base_ram),
              storage_usage = min 100 (max 0 base_storage),
              bandwidth_usage = min 100 (max 0 base_bandwidth),
              vm_migration_count =
                vm_migration_count (metrics s) + (if step mod 4 = 0 then 1 else 0)\<rparr>,
           zone_status :=
             \<lparr>high_resource_slow =
                \<lparr>vm_count = max 2 (py_int (6 + 2 * sin (real step * 0.2))),
                 utilization = min 100 (max 0 (total_utilization * 1.2))\<rparr>,
              medium =
                \<lparr>vm_count = max 3 (py_int (7 + sin (real step * 0.15))),
                 utilization = min 100 (max 0 total_utilization)\<rparr>,
              fast_small =
                \<lparr>vm_count = max 1 (py_int (3 + sin (real step * 0.25))),
                 utilization = min 100 (max 0 (total_utilization * 0.8))\<rparr>\<rparr>\<rparr>)"

text \<open>
  The three coroutines differ in their name, their number of steps and their loop body.
\<close>

datatype coroutine = Scenario1 | Scenario2 | Scenario3

fun scenario_name :: "coroutine \<Rightarrow> string" where
  "scenario_name Scenario1 = ''high_load''"
| "scenario_name Scenario2 = ''zone_migration''"
| "scenario_name Scenario3 = ''resource_scaling''"

fun step_count :: "coroutine \<Rightarrow> nat" where
  "step_count Scenario1 = 30"
| "step_count Scenario2 = 25"
| "step_count Scenario3 = 20"

fun scenario_step :: "coroutine \<Rightarrow> nat \<Rightarrow> draws \<Rightarrow> simulation_state \<Rightarrow> simulation_state" where
  "scenario_step Scenario1 = scenario_1_high_load_step"
| "scenario_step Scenario2 = scenario_2_zone_migration_step"
| "scenario_step Scenario3 = scenario_3_resource_scaling_step"

text \<open>
  The event handed to \<^verbatim>\<open>manager.broadcast\<close> (before \<^verbatim>\<open>json.dumps\<close>): the metrics and
  the zone status just written, and the time.
\<close>

record update_event =
  event_type :: string
  event_data :: metrics_dict
  event_zone_status :: zone_status_dict
  event_timestamp :: string

definition metrics_update_event :: "draws \<Rightarrow> simulation_state \<Rightarrow> update_event" where
  "metrics_update_event d s =
     \<lparr>event_type = ''metrics_update'', event_data = metrics s,
      event_zone_status = zone_status s, event_timestamp = now d\<rparr>"

type_synonym transport = "update_event network"

text \<open>
  One whole iteration of a stepper loop, from the loop head to \<^verbatim>\<open>asyncio.sleep\<close>:
  the write of the state, then the broadcast in its surroundings \<open>net\<close>. It returns the
  event, the log of the deliveries attempted, the state and the manager.
\<close>

definition iteration ::
  "coroutine \<Rightarrow> nat \<Rightarrow> draws \<Rightarrow> transport \<Rightarrow> simulation_state \<times> WebSocketManager \<Rightarrow>
   exn + (update_event \<times> websocket list \<times> simulation_state \<times> WebSocketManager)" where
  "iteration c step d net sm =
     (case sm of (s, m) \<Rightarrow>
        (let s' = scenario_step c step d s;
             ev = metrics_update_event d s'
         in (case broadcast net ev m of
               Inl e \<Rightarrow> Inl e
             | Inr (attempted, m') \<Rightarrow> Inr (ev, attempted, s', m'))))"

text \<open>
  A stepper run by itself, from its first line to its return: the scenario name is
  written, then the loop runs over the steps in order. \<open>ds step\<close> and \<open>nets step\<close> are
  the random numbers and the surroundings of that step. The events broadcast are returned
  in order.
\<close>

fun run_steps ::
  "coroutine \<Rightarrow> nat list \<Rightarrow> (nat \<Rightarrow> draws) \<Rightarrow> (nat \<Rightarrow> transport) \<Rightarrow>
   simulation_state \<times> WebSocketManager \<Rightarrow>
   exn + (update_event list \<times> simulation_state \<times> WebSocketManager)" where
  "run_steps c [] ds nets sm = Inr ([], sm)"
| "run_steps c (step # steps) ds nets sm =
     (case iteration c step (ds step) (nets step) sm of
        Inl e \<Rightarrow> Inl e
      | Inr (ev, attempted, sm') \<Rightarrow>
          (case run_steps c steps ds nets sm' of
             Inl e \<Rightarrow> Inl e
           | Inr (evs, sm'') \<Rightarrow> Inr (ev # evs, sm'')))"

definition run_scenario ::
  "coroutine \<Rightarrow> (nat \<Rightarrow> draws) \<Rightarrow> (nat \<Rightarrow> transport) \<Rightarrow>
   simulation_state \<times> WebSocketManager \<Rightarrow>
   exn + (update_event list \<times> simulation_state \<times> WebSocketManager)" where
  "run_scenario c ds nets sm =
     (case sm of (s, m) \<Rightarrow>
        run_steps c [0..<step_count c] ds nets (s\<lparr>scenario := scenario_name c\<rparr>, m))"

section \<open>The server: state, tasks and handlers\<close>

text \<open>
  The process holds the simulation state, the manager and the stepper tasks that
  \<^verbatim>\<open>asyncio.create_task\<close> has put on the event loop and that have not returned.
  A task is its coroutine and the number of loop iterations it has done.
\<close>

record task =
  task_coroutine :: coroutine
  steps_done :: nat

record server =
  state :: simulation_state
  manager :: WebSocketManager
  tasks :: "task list"

definition create_task :: "coroutine \<Rightarrow> server \<Rightarrow> server" where
  "create_task c srv = srv\<lparr>tasks := tasks srv @ [\<lparr>task_coroutine = c, steps_done = 0\<rparr>]\<rparr>"

text \<open>The JSON body of a 200 answer.\<close>

record response =
  message :: string
  status :: string

text \<open>The body of the \<^verbatim>\<open>try\<close> block of \<^verbatim>\<open>start_scenario\<close>.\<close>

definition start_scenario_try :: "int \<Rightarrow> server \<Rightarrow> (exn + response) \<times> server" where
  "start_scenario_try scenario_id srv =
     (if scenario_id = 1 then
        (Inr \<lparr>message = ''Started scenario '' @ str_int scenario_id, status = ''success''\<rparr>,
         create_task Scenario1 srv)
      else if scenario_id = 2 then
        (Inr \<lparr>message = ''Started scenario '' @ str_int scenario_id, status = ''success''\<rparr>,
         create_task Scenario2 srv)
      else if scenario_id = 3 then
        (Inr \<lparr>message = ''Started scenario '' @ str_int scenario_id, status = ''success''\<rparr>,
         create_task Scenario3 srv)
      else
        (Inl (HTTPException 400 (Text ''Invalid scenario ID'')),
         srv\<lparr>state := (state srv)\<lparr>running := False\<rparr>\<rparr>))"

text \<open>
  \<^verbatim>\<open>start_scenario\<close>: the check of the running flag, the flag set, then the
  \<^verbatim>\<open>try\<close> block under \<^verbatim>\<open>except Exception as e\<close>, which catches every exception
  of the block, clears the flag and raises an HTTPException with status 500.
\<close>

definition start_scenario :: "int \<Rightarrow> server \<Rightarrow> (exn + response) \<times> server" where
  "start_scenario scenario_id srv =
     (if running (state srv) then
        (Inl (HTTPException 400 (Text ''Simulation already running'')), srv)
      else
        (case start_scenario_try scenario_id (srv\<lparr>state := (state srv)\<lparr>running := True\<rparr>\<rparr>) of
           (Inr r, srv') \<Rightarrow> (Inr r, srv')
         | (Inl e, srv') \<Rightarrow>
             (Inl (HTTPException 500 (Str e)), srv'\<lparr>state := (state srv')\<lparr>running := False\<rparr>\<rparr>)))"

text \<open>\<^verbatim>\<open>stop_simulation\<close>.\<close>

definition stop_simulation :: "server \<Rightarrow> (exn + response) \<times> server" where
  "stop_simulation srv =
     (Inr \<lparr>message = ''Simulation stopped'', status = ''success''\<rparr>,
      srv\<lparr>state := (state srv)\<lparr>running := False, scenario := ''idle''\<rparr>\<rparr>)"

text \<open>\<^verbatim>\<open>reset_simulation\<close>; \<open>z\<close> are the random numbers of \<^verbatim>\<open>initialize_simulation\<close>.\<close>

definition reset_simulation :: "(nat \<Rightarrow> nat \<Rightarrow> real) \<Rightarrow> server \<Rightarrow> (exn + response) \<times> server" where
  "reset_simulation z srv =
     (Inr \<lparr>message = ''Simulation reset'', status = ''success''\<rparr>,
      srv\<lparr>state :=
            initialize_simulation z
              ((state srv)\<lparr>running := False, scenario := ''idle'',
                           metrics := zero_metrics, zone_status := zero_zone_status\<rparr>)\<rparr>)"

text \<open>
  The event loop resumes the task of index \<open>k\<close>. A task whose loop has steps left writes
  the scenario name first when it has just been created, does one iteration and goes to
  sleep; a task whose loop is exhausted returns and leaves the list. An exception
  leaving \<^verbatim>\<open>broadcast\<close> would end the task after the write of the state.
\<close>

datatype outcome =
    Stepped update_event "websocket list"
  | Returned
  | Failed exn
  | No_task

definition drop_task :: "nat \<Rightarrow> task list \<Rightarrow> task list" where
  "drop_task k ts = take k ts @ drop (Suc k) ts"

definition resume_task :: "nat \<Rightarrow> draws \<Rightarrow> transport \<Rightarrow> server \<Rightarrow> outcome \<times> server" where
  "resume_task k d net srv =
     (if k \<ge> length (tasks srv) then (No_task, srv)
      else
        (let t = tasks srv ! k; c = task_coroutine t in
         if steps_done t \<ge> step_count c then
           (Returned, srv\<lparr>tasks := drop_task k (tasks srv)\<rparr>)
         else
           (let s0 = (if steps_done t = 0 then (state srv)\<lparr>scenario := scenario_name c\<rparr>
                      else state srv)
            in (case iteration c (steps_done t) d net (s0, manager srv) of
                  Inl e \<Rightarrow>
                    (Failed e,
                     srv\<lparr>state := scenario_step c (steps_done t) d s0,
                         tasks := drop_task k (tasks srv)\<rparr>)
                | Inr (ev, attempted, s', m') \<Rightarrow>
                    (Stepped ev attempted,
                     srv\<lparr>state := s', manager := m',
                         tasks := (tasks srv)[k := t\<lparr>steps_done := steps_done t + 1\<rparr>]\<rparr>)))))"

text \<open>The task of index \<open>k\<close> resumed once for every entry of a list of random numbers and transports.\<close>

fun stepped :: "outcome \<Rightarrow> bool" where
  "stepped (Stepped ev attempted) = True"
| "stepped Returned = False"
| "stepped (Failed e) = False"
| "stepped No_task = False"

fun resume_times :: "nat \<Rightarrow> (draws \<times> transport) list \<Rightarrow> server \<Rightarrow> outcome list \<times> server" where
  "resume_times k [] srv = ([], srv)"
| "resume_times k (dt # rest) srv =
     (case resume_task k (fst dt) (snd dt) srv of
        (out, srv') \<Rightarrow>
          (case resume_times k rest srv' of (outs, srv'') \<Rightarrow> (out # outs, srv'')))"

text \<open>The coroutine that \<^verbatim>\<open>start_scenario\<close> starts for a valid scenario id.\<close>

definition scenario_coroutine :: "int \<Rightarrow> coroutine" where
  "scenario_coroutine scenario_id =
     (if scenario_id = 1 then Scenario1 else if scenario_id = 2 then Scenario2 else Scenario3)"

text \<open>
  The life of the server: requests are handled, the websocket handler changes the
  registry, and the event loop resumes stepper tasks, in any order. \<open>run_server\<close> returns
  the outcomes of the resumptions in order; \<open>counts\<close> reads the \<open>vm_migration_count\<close> of
  every event broadcast.
\<close>

datatype server_event =
    Start_scenario int
  | Stop
  | Reset "nat \<Rightarrow> nat \<Rightarrow> real"
  | Handler registry_op
  | Resume nat draws transport

fun run_server :: "server_event list \<Rightarrow> server \<Rightarrow> outcome list \<times> server" where
  "run_server [] srv = ([], srv)"
| "run_server (Start_scenario scenario_id # evs) srv =
     run_server evs (snd (start_scenario scenario_id srv))"
| "run_server (Stop # evs) srv = run_server evs (snd (stop_simulation srv))"
| "run_server (Reset z # evs) srv = run_server evs (snd (reset_simulation z srv))"
| "run_server (Handler op # evs) srv =
     run_server evs (srv\<lparr>manager := apply_op op (manager srv)\<rparr>)"
| "run_server (Resume k d net # evs) srv =
     (case resume_task k d net srv of
        (out, srv') \<Rightarrow>
          (case run_server evs srv' of (outs, srv'') \<Rightarrow> (out # outs, srv'')))"

fun counts :: "outcome list \<Rightarrow> int list" where
  "counts [] = []"
| "counts (Stepped ev attempted # outs) = vm_migration_count (event_data ev) # counts outs"
| "counts (out # outs) = counts outs"

fun is_reset :: "server_event \<Rightarrow> bool" where
  "is_reset (Reset z) = True"
| "is_reset ev = False"

section \<open>Ranges\<close>

definition in_percent_range :: "real \<Rightarrow> bool" where
  "in_percent_range x = (0 \<le> x \<and> x \<le> 100)"

definition metrics_in_range :: "metrics_dict \<Rightarrow> bool" where
  "metrics_in_range mt =
     (in_percent_range (cpu_utilization mt) \<and> in_percent_range (ram_usage mt) \<and>
      in_percent_range (storage_usage mt) \<and> in_percent_range (bandwidth_usage mt))"

definition zone_in_range :: "zone_dict \<Rightarrow> bool" where
  "zone_in_range z = (0 \<le> vm_count z \<and> in_percent_range (utilization z))"

section \<open>Concrete inputs\<close>

text \<open>
  The server after the startup event, with no subscriber; random numbers with every
  deviate zero; the same with the deviate of the fifth call of \<^verbatim>\<open>np.random.normal\<close>
  seven standard deviations below the mean; surroundings in which every delivery
  succeeds and no other task touches the registry.
\<close>

definition startup_server :: server where
  "startup_server =
     \<lparr>state = initialize_simulation (\<lambda>i k. 0) initial_simulation_state,
      manager = \<lparr>active_connections = []\<rparr>, tasks = []\<rparr>"

definition calm :: draws where
  "calm = \<lparr>normal_z = (\<lambda>k. 0), random_u = 1 / 2, randint_r = (\<lambda>k. 0), now = ''t''\<rparr>"

definition cold :: draws where
  "cold = \<lparr>normal_z = (\<lambda>k. if k = 4 then - 7 else 0), random_u = 1 / 2,
           randint_r = (\<lambda>k. 0), now = ''t''\<rparr>"

definition delivered :: transport where
  "delivered = \<lparr>send_text = (\<lambda>c ev. Inr ()), others = []\<rparr>"

text \<open>
  The server after startup with one subscriber, and the same server after a start of
  scenario 1 and the first resumption of its task.
\<close>

definition watched_server :: server where
  "watched_server = startup_server\<lparr>manager := connect 7 (manager startup_server)\<rparr>"

definition stepping_server :: server where
  "stepping_server =
     snd (resume_task 0 calm delivered (snd (start_scenario 1 watched_server)))"

section \<open>Properties of the registry\<close>

lemma list_remove_member: "x \<in> set xs \<Longrightarrow> list_remove x xs = Inr (remove1 x xs)"
  by (induction xs) auto

lemma list_remove_absent: "x \<notin> set xs \<Longrightarrow> list_remove x xs = Inl ValueError"
  by (induction xs) auto

lemma disconnect_eq:
  "disconnect ws m = Inr (m\<lparr>active_connections := remove1 ws (active_connections m)\<rparr>)"
  by (cases "ws \<in> set (active_connections m)")
     (simp_all add: disconnect_def list_remove_member remove1_idem)

lemma disconnect_each_eq:
  "disconnect_each cs m =
     Inr (m\<lparr>active_connections := fold remove1 cs (active_connections m)\<rparr>)"
  by (induction cs arbitrary: m) (simp_all add: disconnect_eq)

lemma fold_remove1_filter:
  "\<forall>y \<in> set ys. \<not> P y \<Longrightarrow>
   fold remove1 (filter P xs) (ys @ xs) = ys @ filter (\<lambda>x. \<not> P x) xs"
proof (induction xs arbitrary: ys)
  case Nil
  then show ?case by simp
next
  case (Cons x xs)
  show ?case
  proof (cases "P x")
    case True
    with Cons.prems have "x \<notin> set ys" by auto
    then have "remove1 x (ys @ x # xs) = ys @ xs"
      by (simp add: remove1_append)
    with True Cons.IH [OF Cons.prems] show ?thesis by simp
  next
    case False
    with Cons.prems have "\<forall>y \<in> set (ys @ [x]). \<not> P y" by auto
    from Cons.IH [OF this] False show ?thesis by simp
  qed
qed

lemma send_loop_quiet:
  "send_loop send msg [] i att disc m =
     (att @ drop i (active_connections m),
      disc @ filter (\<lambda>c. \<not> send_ok send msg c) (drop i (active_connections m)), m)"
proof (induction "length (active_connections m) - i" arbitrary: i att disc)
  case 0
  then show ?case by (subst send_loop.simps) simp
next
  case (Suc n)
  then have less: "i < length (active_connections m)" by simp
  from Suc have "n = length (active_connections m) - Suc i" by simp
  note ih = Suc.hyps(1) [OF this]
  from less have dr: "drop i (active_connections m)
      = active_connections m ! i # drop (Suc i) (active_connections m)"
    by (simp add: Cons_nth_drop_Suc)
  show ?case
    by (subst send_loop.simps) (simp add: less ih dr send_ok_def split: sum.splits)
qed

lemma broadcast_total: "\<exists>attempted m'. broadcast net msg m = Inr (attempted, m')"
  by (cases "send_loop (send_text net) msg (others net) 0 [] [] m")
     (simp add: broadcast_def disconnect_each_eq)

lemma broadcast_quiet:
  assumes "others net = []"
  shows "broadcast net msg m =
     Inr (active_connections m,
          m\<lparr>active_connections :=
              filter (send_ok (send_text net) msg) (active_connections m)\<rparr>)"
proof (cases "active_connections m = []")
  case True
  then show ?thesis by (simp add: broadcast_def)
next
  case False
  have "fold remove1 (filter (\<lambda>c. \<not> send_ok (send_text net) msg c) (active_connections m))
          ([] @ active_connections m)
        = [] @ filter (\<lambda>c. \<not> \<not> send_ok (send_text net) msg c) (active_connections m)"
    by (rule fold_remove1_filter) simp
  with False assms show ?thesis
    by (simp add: broadcast_def send_loop_quiet disconnect_each_eq)
qed

lemma attempts_quiet: "others net = [] \<Longrightarrow> attempts net msg m = active_connections m"
  by (simp add: attempts_def broadcast_quiet)

lemma attempts_eq:
  "broadcast net msg m = Inr (attempted, m') \<Longrightarrow> attempts net msg m = attempted"
  by (simp add: attempts_def)

text \<open>
  Whatever the other tasks do during the pass, the connections whose delivery failed are
  those of the log that were appended to \<^verbatim>\<open>disconnected\<close>.
\<close>

lemma send_loop_log:
  "send_loop send msg ops i att disc m = (att', disc', m') \<Longrightarrow>
   \<exists>new. att' = att @ new \<and> disc' = disc @ filter (\<lambda>c. \<not> send_ok send msg c) new"
proof (induction send msg ops i att disc m rule: send_loop.induct)
  case (1 send msg ops i att disc m)
  show ?case
  proof (cases "i < length (active_connections m)")
    case False
    with "1.prems" show ?thesis by (subst (asm) send_loop.simps) simp
  next
    case True
    let ?c = "active_connections m ! i"
    show ?thesis
    proof (cases "send ?c msg")
      case (Inl e)
      with True "1.prems" have
        "send_loop send msg (tl ops) (i + 1) (att @ [?c]) (disc @ [?c])
           (apply_ops (during ops) m) = (att', disc', m')"
        by (subst (asm) send_loop.simps) simp
      from "1.IH"(1) [OF True Inl this] obtain new where
        "att' = (att @ [?c]) @ new"
        "disc' = (disc @ [?c]) @ filter (\<lambda>c. \<not> send_ok send msg c) new"
        by blast
      with Inl have "att' = att @ (?c # new) \<and>
          disc' = disc @ filter (\<lambda>c. \<not> send_ok send msg c) (?c # new)"
        by (simp add: send_ok_def)
      then show ?thesis by blast
    next
      case (Inr u)
      with True "1.prems" have
        "send_loop send msg (tl ops) (i + 1) (att @ [?c]) disc
           (apply_ops (during ops) m) = (att', disc', m')"
        by (subst (asm) send_loop.simps) simp
      from "1.IH"(2) [OF True Inr this] obtain new where
        "att' = (att @ [?c]) @ new"
        "disc' = disc @ filter (\<lambda>c. \<not> send_ok send msg c) new"
        by blast
      with Inr have "att' = att @ (?c # new) \<and>
          disc' = disc @ filter (\<lambda>c. \<not> send_ok send msg c) (?c # new)"
        by (simp add: send_ok_def)
      then show ?thesis by blast
    qed
  qed
qed

text \<open>
  A connection that is registered once and is not registered again by another task
  during the pass is gone when the broadcast returns, if its delivery failed.
\<close>

lemma count_list_remove1:
  "count_list (remove1 d xs) c = (if d = c then count_list xs c - 1 else count_list xs c)"
proof (induction xs)
  case Nil
  then show ?case by simp
next
  case (Cons x xs)
  show ?case
  proof (cases "d = x")
    case True
    then show ?thesis by simp
  next
    case False
    with Cons show ?thesis
      by (cases "x = c") simp_all
  qed
qed

lemma count_list_fold_remove1:
  "count_list (fold remove1 ds xs) c = count_list xs c - count_list ds c"
  by (induction ds arbitrary: xs) (auto simp: count_list_remove1)

lemma apply_op_count:
  "op \<noteq> Connect c \<Longrightarrow>
   count_list (active_connections (apply_op op m)) c \<le> count_list (active_connections m) c"
  by (cases op) (auto simp: connect_def disconnect_eq count_list_remove1)

lemma apply_ops_count:
  "Connect c \<notin> set ops \<Longrightarrow>
   count_list (active_connections (apply_ops ops m)) c \<le> count_list (active_connections m) c"
proof (induction ops arbitrary: m)
  case Nil
  then show ?case by simp
next
  case (Cons op ops)
  then have "op \<noteq> Connect c" and rest: "Connect c \<notin> set ops" by auto
  from apply_op_count [OF this(1), of m] Cons.IH [OF rest, of "apply_op op m"]
  show ?case by simp
qed

lemma send_loop_count:
  "send_loop send msg ops i att disc m = (att', disc', m') \<Longrightarrow>
   Connect c \<notin> set (concat ops) \<Longrightarrow>
   count_list (active_connections m') c \<le> count_list (active_connections m) c"
proof (induction send msg ops i att disc m rule: send_loop.induct)
  case (1 send msg ops i att disc m)
  show ?case
  proof (cases "i < length (active_connections m)")
    case False
    with "1.prems" show ?thesis by (subst (asm) send_loop.simps) simp
  next
    case True
    let ?c = "active_connections m ! i"
    let ?m = "apply_ops (during ops) m"
    from "1.prems"(2) have now: "Connect c \<notin> set (during ops)"
      and later: "Connect c \<notin> set (concat (tl ops))"
      by (cases ops; simp)+
    from apply_ops_count [OF now]
    have step: "count_list (active_connections ?m) c \<le> count_list (active_connections m) c" .
    show ?thesis
    proof (cases "send ?c msg")
      case (Inl e)
      with True "1.prems" have
        "send_loop send msg (tl ops) (i + 1) (att @ [?c]) (disc @ [?c]) ?m = (att', disc', m')"
        by (subst (asm) send_loop.simps) simp
      from "1.IH"(1) [OF True Inl this later] step show ?thesis by simp
    next
      case (Inr u)
      with True "1.prems" have
        "send_loop send msg (tl ops) (i + 1) (att @ [?c]) disc ?m = (att', disc', m')"
        by (subst (asm) send_loop.simps) simp
      from "1.IH"(2) [OF True Inr this later] step show ?thesis by simp
    qed
  qed
qed

lemma failed_connection_removed:
  assumes bc: "broadcast net msg m = Inr (attempted, m')"
    and att: "c \<in> set attempted"
    and failed: "\<not> send_ok (send_text net) msg c"
    and once: "count_list (active_connections m) c \<le> 1"
    and fresh: "Connect c \<notin> set (concat (others net))"
  shows "c \<notin> set (active_connections m')"
proof -
  from bc att have nonempty: "active_connections m \<noteq> []"
    by (auto simp: broadcast_def)
  obtain att' disc m1 where
    loop: "send_loop (send_text net) msg (others net) 0 [] [] m = (att', disc, m1)"
    by (cases "send_loop (send_text net) msg (others net) 0 [] [] m")
  with bc nonempty have res: "attempted = att'"
    "m' = m1\<lparr>active_connections := fold remove1 disc (active_connections m1)\<rparr>"
    by (simp_all add: broadcast_def disconnect_each_eq)
  from send_loop_log [OF loop] have "disc = filter (\<lambda>c. \<not> send_ok (send_text net) msg c) att'"
    by simp
  with att failed res have "c \<in> set disc" by simp
  then have "count_list disc c \<noteq> 0"
    by (simp add: count_list_0_iff)
  then have "1 \<le> count_list disc c" by simp
  moreover from send_loop_count [OF loop fresh] once
  have "count_list (active_connections m1) c \<le> 1" by simp
  ultimately have "count_list (active_connections m') c = 0"
    by (simp add: res count_list_fold_remove1)
  then show ?thesis by (simp add: count_list_0_iff)
qed

section \<open>Properties of the steppers and the tasks\<close>

lemma scenario_step_frame:
  "scenario_step c step d s =
     s\<lparr>metrics := metrics (scenario_step c step d s),
       zone_status := zone_status (scenario_step c step d s)\<rparr>"
  by (cases c)
     (simp_all add: scenario_1_high_load_step_def scenario_2_zone_migration_step_def
        scenario_3_resource_scaling_step_def Let_def)

lemma scenario_step_reads_metrics_only:
  "metrics s = metrics s' \<Longrightarrow>
   metrics (scenario_step c step d s) = metrics (scenario_step c step d s') \<and>
   zone_status (scenario_step c step d s) = zone_status (scenario_step c step d s')"
  by (cases c)
     (simp_all add: scenario_1_high_load_step_def scenario_2_zone_migration_step_def
        scenario_3_resource_scaling_step_def Let_def)

lemma scenario_step_keeps:
  "running (scenario_step c step d s) = running s \<and>
   scenario (scenario_step c step d s) = scenario s \<and>
   vms (scenario_step c step d s) = vms s \<and>
   hosts (scenario_step c step d s) = hosts s"
  by (cases c)
     (simp_all add: scenario_1_high_load_step_def scenario_2_zone_migration_step_def
        scenario_3_resource_scaling_step_def Let_def)

lemma iteration_total:
  "\<exists>m'. iteration c step d net (s, m) =
     Inr (metrics_update_event d (scenario_step c step d s),
          attempts net (metrics_update_event d (scenario_step c step d s)) m,
          scenario_step c step d s, m')"
proof -
  obtain attempted m' where
    "broadcast net (metrics_update_event d (scenario_step c step d s)) m = Inr (attempted, m')"
    using broadcast_total [of net "metrics_update_event d (scenario_step c step d s)" m]
    by blast
  then show ?thesis by (simp add: iteration_def Let_def attempts_def)
qed

lemma iteration_quiet:
  "others net = [] \<Longrightarrow>
   iteration c step d net (s, m) =
     Inr (metrics_update_event d (scenario_step c step d s), active_connections m,
          scenario_step c step d s,
          m\<lparr>active_connections :=
              filter (send_ok (send_text net) (metrics_update_event d (scenario_step c step d s)))
                (active_connections m)\<rparr>)"
  by (simp add: iteration_def Let_def broadcast_quiet)

lemma delivered_quiet: "others delivered = []"
  by (simp add: delivered_def)

lemma delivered_ok: "send_ok (send_text delivered) msg c"
  by (simp add: delivered_def send_ok_def)

lemma resume_task_unfold:
  assumes "k < length (tasks srv)"
    and "steps_done (tasks srv ! k) < step_count (task_coroutine (tasks srv ! k))"
    and "iteration (task_coroutine (tasks srv ! k)) (steps_done (tasks srv ! k)) d net
           (if steps_done (tasks srv ! k) = 0
            then (state srv)\<lparr>scenario := scenario_name (task_coroutine (tasks srv ! k))\<rparr>
            else state srv,
            manager srv)
         = Inr (ev, att, s, m')"
  shows "resume_task k d net srv =
     (Stepped ev att,
      srv\<lparr>state := s, manager := m',
          tasks := (tasks srv)[k := (tasks srv ! k)\<lparr>steps_done := steps_done (tasks srv ! k) + 1\<rparr>]\<rparr>)"
proof (cases "steps_done (tasks srv ! k) = 0")
  case True
  with assms show ?thesis by (simp add: resume_task_def Let_def)
next
  case False
  with assms show ?thesis by (simp add: resume_task_def Let_def)
qed

lemma resume_task_stepped:
  assumes k: "k < length (tasks srv)"
    and less: "steps_done (tasks srv ! k) < step_count (task_coroutine (tasks srv ! k))"
  shows "\<exists>ev srv'.
     resume_task k d net srv = (Stepped ev (attempts net ev (manager srv)), srv') \<and>
     event_data ev = metrics (state srv') \<and>
     event_zone_status ev = zone_status (state srv') \<and>
     metrics (state srv') =
       metrics (scenario_step (task_coroutine (tasks srv ! k)) (steps_done (tasks srv ! k)) d
                  (state srv)) \<and>
     zone_status (state srv') =
       zone_status (scenario_step (task_coroutine (tasks srv ! k)) (steps_done (tasks srv ! k)) d
                  (state srv)) \<and>
     running (state srv') = running (state srv) \<and>
     vms (state srv') = vms (state srv) \<and>
     hosts (state srv') = hosts (state srv) \<and>
     tasks srv' =
       (tasks srv)[k := (tasks srv ! k)\<lparr>steps_done := steps_done (tasks srv ! k) + 1\<rparr>]"
proof -
  define t where "t = tasks srv ! k"
  define c where "c = task_coroutine t"
  define pre where "pre = (if steps_done t = 0 then (state srv)\<lparr>scenario := scenario_name c\<rparr>
             else state srv)"
  define s where "s = scenario_step c (steps_done t) d pre"
  define ev where "ev = metrics_update_event d s"
  from iteration_total [of c "steps_done t" d net pre "manager srv"] obtain m' where
    it: "iteration c (steps_done t) d net (pre, manager srv) =
           Inr (ev, attempts net ev (manager srv), s, m')"
    unfolding s_def ev_def by blast
  define srv' where "srv' = srv\<lparr>state := s, manager := m',
              tasks := (tasks srv)[k := t\<lparr>steps_done := steps_done t + 1\<rparr>]\<rparr>"
  have res: "resume_task k d net srv = (Stepped ev (attempts net ev (manager srv)), srv')"
    unfolding srv'_def t_def
    by (rule resume_task_unfold [OF k less it [unfolded pre_def c_def t_def]])
  have pre: "metrics pre = metrics (state srv)" "running pre = running (state srv)"
    "vms pre = vms (state srv)" "hosts pre = hosts (state srv)"
    by (simp_all add: pre_def)
  from scenario_step_reads_metrics_only [OF pre(1), of c "steps_done t" d]
  have same: "metrics s = metrics (scenario_step c (steps_done t) d (state srv))"
    "zone_status s = zone_status (scenario_step c (steps_done t) d (state srv))"
    by (simp_all add: s_def)
  have keeps: "running s = running (state srv)" "vms s = vms (state srv)"
    "hosts s = hosts (state srv)"
    using scenario_step_keeps [of c "steps_done t" d pre] pre by (simp_all add: s_def)
  have ev: "event_data ev = metrics s" "event_zone_status ev = zone_status s"
    by (simp_all add: ev_def metrics_update_event_def)
  have srv': "state srv' = s" "tasks srv' = (tasks srv)[k := t\<lparr>steps_done := steps_done t + 1\<rparr>]"
    by (simp_all add: srv'_def)
  from res ev same keeps srv' show ?thesis
    unfolding t_def [symmetric] c_def [symmetric] by (intro exI [of _ ev] exI [of _ srv']) simp
qed

lemma randint_range: "low < high \<Longrightarrow> low \<le> randint low high r \<and> randint low high r < high"
proof -
  assume "low < high"
  then have "0 < nat (high - low)" by simp
  then have "r mod nat (high - low) < nat (high - low)" by (rule mod_less_divisor)
  then have "int (r mod nat (high - low)) < high - low" by linarith
  then show ?thesis by (simp add: randint_def)
qed

lemma count_step_mono:
  "vm_migration_count (metrics s) \<le> vm_migration_count (metrics (scenario_step c step d s))"
proof (cases c)
  case Scenario1
  then show ?thesis by (simp add: scenario_1_high_load_step_def Let_def)
next
  case Scenario2
  have "1 \<le> randint 1 4 (randint_r d 0)" using randint_range [of 1 4] by simp
  with Scenario2 show ?thesis by (simp add: scenario_2_zone_migration_step_def Let_def)
next
  case Scenario3
  then show ?thesis by (simp add: scenario_3_resource_scaling_step_def Let_def)
qed

lemma run_steps_total:
  "\<exists>evs s' m'. run_steps c steps ds nets (s, m) = Inr (evs, s', m') \<and>
      length evs = length steps"
proof (induction steps arbitrary: s m)
  case Nil
  then show ?case by simp
next
  case (Cons step steps)
  let ?s = "scenario_step c step (ds step) s"
  from iteration_total [of c step "ds step" "nets step" s m] obtain m1 where
    it: "iteration c step (ds step) (nets step) (s, m) =
           Inr (metrics_update_event (ds step) ?s,
                attempts (nets step) (metrics_update_event (ds step) ?s) m, ?s, m1)"
    by blast
  from Cons.IH [of ?s m1] obtain evs s' m' where
    "run_steps c steps ds nets (?s, m1) = Inr (evs, s', m')" "length evs = length steps"
    by blast
  with it show ?case by simp
qed

lemma run_steps_counts:
  "run_steps c steps ds nets (s, m) = Inr (evs, s', m') \<Longrightarrow>
   sorted (map (\<lambda>ev. vm_migration_count (event_data ev)) evs) \<and>
   (\<forall>ev \<in> set evs. vm_migration_count (metrics s) \<le> vm_migration_count (event_data ev)) \<and>
   vm_migration_count (metrics s) \<le> vm_migration_count (metrics s')"
proof (induction steps arbitrary: s m evs)
  case Nil
  then show ?case by simp
next
  case (Cons step steps)
  let ?s = "scenario_step c step (ds step) s"
  from iteration_total [of c step "ds step" "nets step" s m] obtain m1 where
    it: "iteration c step (ds step) (nets step) (s, m) =
           Inr (metrics_update_event (ds step) ?s,
                attempts (nets step) (metrics_update_event (ds step) ?s) m, ?s, m1)"
    by blast
  from Cons.prems it obtain evs' where
    run: "run_steps c steps ds nets (?s, m1) = Inr (evs', s', m')" and
    evs: "evs = metrics_update_event (ds step) ?s # evs'"
    by (auto split: sum.splits)
  have first: "vm_migration_count (metrics s) \<le> vm_migration_count (metrics ?s)"
    by (rule count_step_mono)
  from Cons.IH [OF run] have
    ih: "sorted (map (\<lambda>ev. vm_migration_count (event_data ev)) evs')"
      "\<forall>ev \<in> set evs'. vm_migration_count (metrics ?s) \<le> vm_migration_count (event_data ev)"
      "vm_migration_count (metrics ?s) \<le> vm_migration_count (metrics s')"
    by blast+
  from evs first ih show ?case
    by (auto simp: metrics_update_event_def)
qed

lemma run_steps_keeps:
  "run_steps c steps ds nets (s, m) = Inr (evs, s', m') \<Longrightarrow>
   running s' = running s \<and> scenario s' = scenario s \<and> vms s' = vms s \<and> hosts s' = hosts s"
proof (induction steps arbitrary: s m evs)
  case Nil
  then show ?case by simp
next
  case (Cons step steps)
  let ?s = "scenario_step c step (ds step) s"
  from iteration_total [of c step "ds step" "nets step" s m] obtain m1 where
    it: "iteration c step (ds step) (nets step) (s, m) =
           Inr (metrics_update_event (ds step) ?s,
                attempts (nets step) (metrics_update_event (ds step) ?s) m, ?s, m1)"
    by blast
  from Cons.prems it obtain evs' where
    run: "run_steps c steps ds nets (?s, m1) = Inr (evs', s', m')"
    by (auto split: sum.splits)
  from Cons.IH [OF run] scenario_step_keeps [of c step "ds step" s] show ?case by simp
qed

lemma resume_times_steps:
  "k < length (tasks srv) \<Longrightarrow>
   steps_done (tasks srv ! k) + length dts \<le> step_count (task_coroutine (tasks srv ! k)) \<Longrightarrow>
   \<exists>outs srv'. resume_times k dts srv = (outs, srv') \<and>
      length outs = length dts \<and> list_all stepped outs \<and>
      length (tasks srv') = length (tasks srv) \<and>
      task_coroutine (tasks srv' ! k) = task_coroutine (tasks srv ! k) \<and>
      steps_done (tasks srv' ! k) = steps_done (tasks srv ! k) + length dts \<and>
      running (state srv') = running (state srv) \<and>
      vms (state srv') = vms (state srv) \<and> hosts (state srv') = hosts (state srv)"
proof (induction dts arbitrary: srv)
  case Nil
  then show ?case by simp
next
  case (Cons dt dts)
  let ?t = "tasks srv ! k"
  from Cons.prems have less: "steps_done ?t < step_count (task_coroutine ?t)" by simp
  obtain out srv1 where r: "resume_task k (fst dt) (snd dt) srv = (out, srv1)"
    by (cases "resume_task k (fst dt) (snd dt) srv")
  from r resume_task_stepped [OF Cons.prems(1) less, of "fst dt" "snd dt"]
  have out: "stepped out"
    and ts: "tasks srv1 = (tasks srv)[k := ?t\<lparr>steps_done := steps_done ?t + 1\<rparr>]"
    and st: "running (state srv1) = running (state srv)"
       "vms (state srv1) = vms (state srv)" "hosts (state srv1) = hosts (state srv)"
    by auto
  from ts Cons.prems have k1: "k < length (tasks srv1)"
    and c1: "task_coroutine (tasks srv1 ! k) = task_coroutine ?t"
    and n1: "steps_done (tasks srv1 ! k) = steps_done ?t + 1"
    by simp_all
  with Cons.prems have "steps_done (tasks srv1 ! k) + length dts
      \<le> step_count (task_coroutine (tasks srv1 ! k))" by simp
  from Cons.IH [OF k1 this] obtain outs srv' where
    rest: "resume_times k dts srv1 = (outs, srv')" "length outs = length dts"
      "list_all stepped outs" "length (tasks srv') = length (tasks srv1)"
      "task_coroutine (tasks srv' ! k) = task_coroutine (tasks srv1 ! k)"
      "steps_done (tasks srv' ! k) = steps_done (tasks srv1 ! k) + length dts"
      "running (state srv') = running (state srv1)"
      "vms (state srv') = vms (state srv1)" "hosts (state srv') = hosts (state srv1)"
    by blast
  with r out ts st c1 n1 show ?case by simp
qed

lemma scenario_1_metrics_in_range:
  "metrics_in_range (metrics (scenario_1_high_load_step step d s))"
  by (simp add: scenario_1_high_load_step_def Let_def metrics_in_range_def
        in_percent_range_def min_le_iff_disj)

lemma scenario_2_metrics_in_range:
  "metrics_in_range (metrics (scenario_2_zone_migration_step step d s))"
proof (cases "step < 10")
  case True
  then have "real step < 10" by simp
  then show ?thesis
    unfolding scenario_2_zone_migration_step_def Let_def metrics_in_range_def
      in_percent_range_def
    using True by auto
next
  case False
  then have "10 \<le> real step" by simp
  then show ?thesis
    unfolding scenario_2_zone_migration_step_def Let_def metrics_in_range_def
      in_percent_range_def min_def max_def
    using False by (auto simp: field_simps)
qed

lemma scenario_3_metrics_in_range:
  "metrics_in_range (metrics (scenario_3_resource_scaling_step step d s))"
  by (simp add: scenario_3_resource_scaling_step_def Let_def metrics_in_range_def
        in_percent_range_def)

lemma scenario_step_metrics_in_range: "metrics_in_range (metrics (scenario_step c step d s))"
  by (cases c)
     (simp_all add: scenario_1_metrics_in_range scenario_2_metrics_in_range
        scenario_3_metrics_in_range)

lemma run_steps_events:
  "run_steps c steps ds nets (s, m) = Inr (evs, s', m') \<Longrightarrow> ev \<in> set evs \<Longrightarrow>
   \<exists>step d s0. ev = metrics_update_event d (scenario_step c step d s0)"
proof (induction steps arbitrary: s m evs)
  case Nil
  then show ?case by simp
next
  case (Cons step steps)
  let ?s = "scenario_step c step (ds step) s"
  from iteration_total [of c step "ds step" "nets step" s m] obtain m1 where
    it: "iteration c step (ds step) (nets step) (s, m) =
           Inr (metrics_update_event (ds step) ?s,
                attempts (nets step) (metrics_update_event (ds step) ?s) m, ?s, m1)"
    by blast
  from Cons.prems it obtain evs' where
    run: "run_steps c steps ds nets (?s, m1) = Inr (evs', s', m')" and
    evs: "evs = metrics_update_event (ds step) ?s # evs'"
    by (auto split: sum.splits)
  show ?case
  proof (cases "ev \<in> set evs'")
    case True
    from Cons.IH [OF run True] show ?thesis .
  next
    case False
    with evs Cons.prems have "ev = metrics_update_event (ds step) ?s" by simp
    then show ?thesis by blast
  qed
qed

lemma run_scenario_total:
  "\<exists>evs s' m'. run_scenario c ds nets (s, m) = Inr (evs, s', m') \<and>
      length evs = step_count c"
  using run_steps_total [of c "[0..<step_count c]" ds nets "s\<lparr>scenario := scenario_name c\<rparr>" m]
  by (simp add: run_scenario_def)

lemma resume_task_event:
  assumes k: "k < length (tasks srv)"
    and less: "steps_done (tasks srv ! k) < step_count (task_coroutine (tasks srv ! k))"
  shows "fst (resume_task k d net srv) =
     Stepped
       \<lparr>event_type = ''metrics_update'',
        event_data =
          metrics (scenario_step (task_coroutine (tasks srv ! k)) (steps_done (tasks srv ! k)) d
                     (state srv)),
        event_zone_status =
          zone_status (scenario_step (task_coroutine (tasks srv ! k))
                     (steps_done (tasks srv ! k)) d (state srv)),
        event_timestamp = now d\<rparr>
       (attempts net
          \<lparr>event_type = ''metrics_update'',
           event_data =
             metrics (scenario_step (task_coroutine (tasks srv ! k))
                        (steps_done (tasks srv ! k)) d (state srv)),
           event_zone_status =
             zone_status (scenario_step (task_coroutine (tasks srv ! k))
                        (steps_done (tasks srv ! k)) d (state srv)),
           event_timestamp = now d\<rparr>
          (manager srv))"
proof -
  define t where "t = tasks srv ! k"
  define c where "c = task_coroutine t"
  define pre where "pre = (if steps_done t = 0 then (state srv)\<lparr>scenario := scenario_name c\<rparr>
             else state srv)"
  define ev where "ev = metrics_update_event d (scenario_step c (steps_done t) d pre)"
  have "metrics pre = metrics (state srv)" by (simp add: pre_def)
  from scenario_step_reads_metrics_only [OF this, of c "steps_done t" d]
  have ev_eq: "ev = \<lparr>event_type = ''metrics_update'',
        event_data = metrics (scenario_step c (steps_done t) d (state srv)),
        event_zone_status = zone_status (scenario_step c (steps_done t) d (state srv)),
        event_timestamp = now d\<rparr>"
    by (simp add: ev_def metrics_update_event_def)
  from iteration_total [of c "steps_done t" d net pre "manager srv"] obtain m' where
    it: "iteration c (steps_done t) d net (pre, manager srv) =
       Inr (ev, attempts net ev (manager srv), scenario_step c (steps_done t) d pre, m')"
    unfolding ev_def by blast
  from resume_task_unfold [OF k less it [unfolded pre_def c_def t_def]]
  have "fst (resume_task k d net srv) = Stepped ev (attempts net ev (manager srv))"
    by simp
  then show ?thesis
    unfolding ev_eq t_def [symmetric] c_def [symmetric] .
qed

lemma resume_task_keeps:
  "running (state (snd (resume_task k d net srv))) = running (state srv) \<and>
   vms (state (snd (resume_task k d net srv))) = vms (state srv) \<and>
   hosts (state (snd (resume_task k d net srv))) = hosts (state srv)"
proof (cases "k < length (tasks srv)")
  case False
  then show ?thesis by (simp add: resume_task_def)
next
  case True
  show ?thesis
  proof (cases "steps_done (tasks srv ! k) < step_count (task_coroutine (tasks srv ! k))")
    case False
    with True show ?thesis by (simp add: resume_task_def Let_def)
  next
    case less: True
    from resume_task_stepped [OF True less, of d net] show ?thesis by auto
  qed
qed

lemma resume_task_returned:
  "k < length (tasks srv) \<Longrightarrow>
   step_count (task_coroutine (tasks srv ! k)) \<le> steps_done (tasks srv ! k) \<Longrightarrow>
   resume_task k d net srv = (Returned, srv\<lparr>tasks := drop_task k (tasks srv)\<rparr>)"
  by (simp add: resume_task_def Let_def)

lemma length_drop_task: "k < length ts \<Longrightarrow> length (drop_task k ts) + 1 = length ts"
  by (simp add: drop_task_def)

text \<open>Facts for evaluating the concrete servers.\<close>

lemma initialize_simulation_keeps:
  "running (initialize_simulation z s) = running s"
  "scenario (initialize_simulation z s) = scenario s"
  "metrics (initialize_simulation z s) = metrics s"
  "zone_status (initialize_simulation z s) = zone_status s"
  by (simp_all add: initialize_simulation_def)

lemma watched_server_simps:
  "tasks watched_server = []"
  "manager watched_server = \<lparr>active_connections = [7]\<rparr>"
  "running (state watched_server) = False"
  "metrics (state watched_server) = zero_metrics"
  by (simp_all add: watched_server_def startup_server_def connect_def
        initial_simulation_state_def initialize_simulation_keeps)

lemma startup_server_simps:
  "tasks startup_server = []"
  "manager startup_server = \<lparr>active_connections = []\<rparr>"
  "running (state startup_server) = False"
  "metrics (state startup_server) = zero_metrics"
  by (simp_all add: startup_server_def initial_simulation_state_def
        initialize_simulation_keeps)

lemma scenario_3_count:
  "vm_migration_count (metrics (scenario_step Scenario3 step d s)) =
     vm_migration_count (metrics s) + (if step mod 4 = 0 then 1 else 0)"
  by (simp add: scenario_3_resource_scaling_step_def Let_def)

lemma stepping_server_tasks:
  "tasks stepping_server = [\<lparr>task_coroutine = Scenario1, steps_done = 1\<rparr>] \<and>
   running (state stepping_server) \<and>
   active_connections (manager stepping_server) = [7]"
  by (simp add: stepping_server_def watched_server_simps start_scenario_def
        start_scenario_try_def create_task_def resume_task_def iteration_quiet
        delivered_quiet delivered_ok Let_def scenario_step_keeps
      del: scenario_step.simps)

text \<open>
  What holds of the zones written: every \<open>vm_count\<close> is non-negative and every
  utilization at most 100; in scenarios 2 and 3 every utilization is at least 0 too.
\<close>

lemma scenario_1_zone_bounds:
  "0 \<le> vm_count (high_resource_slow (zone_status (scenario_1_high_load_step step d s))) \<and>
   0 \<le> vm_count (medium (zone_status (scenario_1_high_load_step step d s))) \<and>
   0 \<le> vm_count (fast_small (zone_status (scenario_1_high_load_step step d s))) \<and>
   utilization (high_resource_slow (zone_status (scenario_1_high_load_step step d s))) \<le> 100 \<and>
   utilization (medium (zone_status (scenario_1_high_load_step step d s))) \<le> 100 \<and>
   utilization (fast_small (zone_status (scenario_1_high_load_step step d s))) \<le> 100"
  by (simp add: scenario_1_high_load_step_def Let_def)

lemma scenario_2_zones_in_range:
  "zone_in_range (high_resource_slow (zone_status (scenario_2_zone_migration_step step d s))) \<and>
   zone_in_range (medium (zone_status (scenario_2_zone_migration_step step d s))) \<and>
   zone_in_range (fast_small (zone_status (scenario_2_zone_migration_step step d s)))"
proof (cases "step < 10")
  case True
  then have "real step < 10" by simp
  then show ?thesis
    unfolding scenario_2_zone_migration_step_def Let_def zone_in_range_def in_percent_range_def
    using True by auto
next
  case False
  then have "10 \<le> real step" by simp
  then show ?thesis
    unfolding scenario_2_zone_migration_step_def Let_def zone_in_range_def in_percent_range_def
    using False by (auto simp: min_le_iff_disj)
qed

lemma scenario_3_zones_in_range:
  "zone_in_range (high_resource_slow (zone_status (scenario_3_resource_scaling_step step d s))) \<and>
   zone_in_range (medium (zone_status (scenario_3_resource_scaling_step step d s))) \<and>
   zone_in_range (fast_small (zone_status (scenario_3_resource_scaling_step step d s)))"
  by (simp add: scenario_3_resource_scaling_step_def Let_def zone_in_range_def
        in_percent_range_def le_max_iff_disj)

lemma counts_Cons: "counts (out # outs) = counts [out] @ counts outs"
  by (cases out) simp_all

lemma resume_task_counts:
  "vm_migration_count (metrics (state srv))
     \<le> vm_migration_count (metrics (state (snd (resume_task k d net srv)))) \<and>
   (counts [fst (resume_task k d net srv)] = [] \<or>
    counts [fst (resume_task k d net srv)] =
      [vm_migration_count (metrics (state (snd (resume_task k d net srv))))])"
proof (cases "k < length (tasks srv)")
  case False
  then show ?thesis by (simp add: resume_task_def)
next
  case True
  show ?thesis
  proof (cases "steps_done (tasks srv ! k) < step_count (task_coroutine (tasks srv ! k))")
    case False
    with True show ?thesis by (simp add: resume_task_def Let_def)
  next
    case less: True
    from resume_task_stepped [OF True less, of d net] obtain ev srv' where
      r: "resume_task k d net srv = (Stepped ev (attempts net ev (manager srv)), srv')"
        "event_data ev = metrics (state srv')"
        "metrics (state srv') =
           metrics (scenario_step (task_coroutine (tasks srv ! k))
                      (steps_done (tasks srv ! k)) d (state srv))"
      by blast
    with count_step_mono [of "state srv" "task_coroutine (tasks srv ! k)"
        "steps_done (tasks srv ! k)" d]
    show ?thesis by simp
  qed
qed

lemma run_server_counts:
  "0 \<le> vm_migration_count (metrics (state srv)) \<Longrightarrow>
   list_all (\<lambda>n. 0 \<le> n) (counts (fst (run_server evs srv))) \<and>
   0 \<le> vm_migration_count (metrics (state (snd (run_server evs srv))))"
proof (induction evs arbitrary: srv)
  case Nil
  then show ?case by simp
next
  case (Cons ev evs)
  show ?case
  proof (cases ev)
    case (Start_scenario scenario_id)
    have "metrics (state (snd (start_scenario scenario_id srv))) = metrics (state srv)"
      by (simp add: start_scenario_def start_scenario_try_def create_task_def)
    with Cons.prems Cons.IH [of "snd (start_scenario scenario_id srv)"] Start_scenario
    show ?thesis by simp
  next
    case Stop
    have "metrics (state (snd (stop_simulation srv))) = metrics (state srv)"
      by (simp add: stop_simulation_def)
    with Cons.prems Cons.IH [of "snd (stop_simulation srv)"] Stop show ?thesis by simp
  next
    case (Reset z)
    have "vm_migration_count (metrics (state (snd (reset_simulation z srv)))) = 0"
      by (simp add: reset_simulation_def initialize_simulation_def zero_metrics_def)
    with Cons.IH [of "snd (reset_simulation z srv)"] Reset show ?thesis by simp
  next
    case (Handler op)
    with Cons.prems Cons.IH [of "srv\<lparr>manager := apply_op op (manager srv)\<rparr>"]
    show ?thesis by simp
  next
    case (Resume k d net)
    obtain out srv1 where r: "resume_task k d net srv = (out, srv1)"
      by (cases "resume_task k d net srv")
    obtain outs srv2 where rest: "run_server evs srv1 = (outs, srv2)"
      by (cases "run_server evs srv1")
    from resume_task_counts [of srv k d net] r Cons.prems
    have c1: "0 \<le> vm_migration_count (metrics (state srv1))"
      and first: "list_all (\<lambda>n. 0 \<le> n) (counts [out])"
      by auto
    from Cons.IH [OF c1] rest
    have "list_all (\<lambda>n. 0 \<le> n) (counts outs)"
      "0 \<le> vm_migration_count (metrics (state srv2))"
      by simp_all
    with first Resume r rest show ?thesis
      by (simp add: counts_Cons [of out outs])
  qed
qed

lemma run_server_sorted:
  "\<not> list_ex is_reset evs \<Longrightarrow>
   sorted (counts (fst (run_server evs srv))) \<and>
   list_all (\<lambda>n. vm_migration_count (metrics (state srv)) \<le> n)
     (counts (fst (run_server evs srv))) \<and>
   vm_migration_count (metrics (state srv))
     \<le> vm_migration_count (metrics (state (snd (run_server evs srv))))"
proof (induction evs arbitrary: srv)
  case Nil
  then show ?case by simp
next
  case (Cons ev evs)
  then have rest_free: "\<not> list_ex is_reset evs" by simp
  note ih = Cons.IH [OF rest_free]
  show ?case
  proof (cases ev)
    case (Start_scenario scenario_id)
    have "metrics (state (snd (start_scenario scenario_id srv))) = metrics (state srv)"
      by (simp add: start_scenario_def start_scenario_try_def create_task_def)
    with ih [of "snd (start_scenario scenario_id srv)"] Start_scenario
    show ?thesis by simp
  next
    case Stop
    have "metrics (state (snd (stop_simulation srv))) = metrics (state srv)"
      by (simp add: stop_simulation_def)
    with ih [of "snd (stop_simulation srv)"] Stop show ?thesis by simp
  next
    case (Reset z)
    with Cons.prems show ?thesis by simp
  next
    case (Handler op)
    with ih [of "srv\<lparr>manager := apply_op op (manager srv)\<rparr>"]
    show ?thesis by simp
  next
    case (Resume k d net)
    obtain out srv1 where r: "resume_task k d net srv = (out, srv1)"
      by (cases "resume_task k d net srv")
    obtain outs srv2 where rest: "run_server evs srv1 = (outs, srv2)"
      by (cases "run_server evs srv1")
    from resume_task_counts [of srv k d net] r
    have up: "vm_migration_count (metrics (state srv))
                \<le> vm_migration_count (metrics (state srv1))"
      and first: "counts [out] = [] \<or>
                  counts [out] = [vm_migration_count (metrics (state srv1))]"
      by simp_all
    from ih [of srv1] rest
    have tail: "sorted (counts outs)"
      "list_all (\<lambda>n. vm_migration_count (metrics (state srv1)) \<le> n) (counts outs)"
      "vm_migration_count (metrics (state srv1))
         \<le> vm_migration_count (metrics (state srv2))"
      by simp_all
    from tail(2) up
    have above: "list_all (\<lambda>n. vm_migration_count (metrics (state srv)) \<le> n) (counts outs)"
      by (auto simp: list_all_iff)
    from first tail up above
    have "sorted (counts [out] @ counts outs) \<and>
          list_all (\<lambda>n. vm_migration_count (metrics (state srv)) \<le> n)
            (counts [out] @ counts outs)"
      by (auto simp: list_all_iff)
    with Resume r rest tail up show ?thesis
      by (simp add: counts_Cons [of out outs])
  qed
qed

section \<open>Claims about the registry\<close>

text \<open>
  C10. \<^verbatim>\<open>disconnect(ws)\<close> never raises. With a websocket that is not registered it
  leaves the manager as it is; with a registered one it removes exactly one entry (the
  first occurrence of \<open>ws\<close>: the list is one shorter, every other entry stays, in order).
  Hence no sequence of removals raises, whatever the list holds: neither a second
  \<^verbatim>\<open>disconnect\<close> of the same websocket, nor the removal loop of \<^verbatim>\<open>broadcast\<close> run on
  connections that the websocket handler has removed already.
\<close>

theorem disconnect_safe:
  "(\<exists>m'. disconnect ws m = Inr m') \<and>
   (ws \<notin> set (active_connections m) \<longrightarrow> disconnect ws m = Inr m) \<and>
   (ws \<in> set (active_connections m) \<longrightarrow>
      (\<exists>m'. disconnect ws m = Inr m' \<and>
            active_connections m' = remove1 ws (active_connections m) \<and>
            length (active_connections m') + 1 = length (active_connections m) \<and>
            count_list (active_connections m') ws + 1 = count_list (active_connections m) ws \<and>
            (\<forall>c. c \<noteq> ws \<longrightarrow>
               count_list (active_connections m') c = count_list (active_connections m) c))) \<and>
   (\<exists>m' m''. disconnect ws m = Inr m' \<and> disconnect ws m' = Inr m'') \<and>
   (\<exists>m'. disconnect_each cs m = Inr m')"
proof -
  have count: "x \<in> set xs \<Longrightarrow> count_list (remove1 x xs) x + 1 = count_list xs x"
    for x :: websocket and xs
    by (induction xs) auto
  have other: "c \<noteq> x \<Longrightarrow> count_list (remove1 x xs) c = count_list xs c"
    for x c :: websocket and xs
    by (induction xs) auto
  have "ws \<notin> set (active_connections m) \<longrightarrow> disconnect ws m = Inr m"
    by (simp add: disconnect_def)
  moreover have "ws \<in> set (active_connections m) \<longrightarrow>
      (\<exists>m'. disconnect ws m = Inr m' \<and>
            active_connections m' = remove1 ws (active_connections m) \<and>
            length (active_connections m') + 1 = length (active_connections m) \<and>
            count_list (active_connections m') ws + 1 = count_list (active_connections m) ws \<and>
            (\<forall>c. c \<noteq> ws \<longrightarrow>
               count_list (active_connections m') c = count_list (active_connections m) c))"
  proof
    assume member: "ws \<in> set (active_connections m)"
    let ?m = "m\<lparr>active_connections := remove1 ws (active_connections m)\<rparr>"
    from member have "0 < length (active_connections m)"
      by (rule length_pos_if_in_set)
    with member have len: "length (active_connections ?m) + 1 = length (active_connections m)"
      by (simp add: length_remove1)
    from count [OF member]
    have cnt: "count_list (active_connections ?m) ws + 1 = count_list (active_connections m) ws"
      by simp
    have "\<forall>c. c \<noteq> ws \<longrightarrow>
            count_list (active_connections ?m) c = count_list (active_connections m) c"
      using other by simp
    with len cnt show "\<exists>m'. disconnect ws m = Inr m' \<and>
            active_connections m' = remove1 ws (active_connections m) \<and>
            length (active_connections m') + 1 = length (active_connections m) \<and>
            count_list (active_connections m') ws + 1 = count_list (active_connections m) ws \<and>
            (\<forall>c. c \<noteq> ws \<longrightarrow>
               count_list (active_connections m') c = count_list (active_connections m) c)"
      by (intro exI [of _ ?m] conjI disconnect_eq) simp_all
  qed
  ultimately show ?thesis
    by (simp add: disconnect_eq disconnect_each_eq)
qed

theorem disconnect_safe_witness:
  "disconnect 7 \<lparr>active_connections = [1, 2, 3]\<rparr> = Inr \<lparr>active_connections = [1, 2, 3]\<rparr> \<and>
   disconnect 2 \<lparr>active_connections = [1, 2, 3]\<rparr> = Inr \<lparr>active_connections = [1, 3]\<rparr> \<and>
   disconnect_each [2, 2] \<lparr>active_connections = [1, 2, 3]\<rparr> = Inr \<lparr>active_connections = [1, 3]\<rparr>"
  using disconnect_safe [of 7 "\<lparr>active_connections = [1, 2, 3]\<rparr>" "[]"]
        disconnect_safe [of 2 "\<lparr>active_connections = [1, 2, 3]\<rparr>" "[2, 2]"]
  by (simp add: disconnect_def)

text \<open>
  C3. The claim is that a delivery failure never reaches the caller of
  \<^verbatim>\<open>broadcast\<close>, that delivery is still attempted for every other subscriber of the
  pass, and that the failed subscriber is gone from the registry when \<^verbatim>\<open>broadcast\<close>
  returns. The first and the last hold (\<open>broadcast_total\<close>, \<open>failed_connection_removed\<close>),
  and with no other task at work the pass reaches every subscriber (\<open>broadcast_quiet\<close>).
  But the loop walks the registry's own list across its awaits: with subscribers 1, 2, 3
  registered, the connection of 2 closes, its delivery fails, and while that
  \<^verbatim>\<open>send_text\<close> is awaited the websocket handler of 2 removes it from the list.
  The list is then 1, 3 and the loop's index 2 is past its end: the pass ends, and no
  delivery is attempted for subscriber 3, which stays registered.
\<close>

theorem broadcast_skips_subscriber:
  "broadcast
     \<lparr>send_text = (\<lambda>c msg. if c = 2 then Inl SendError else Inr ()),
      others = [[], [Disconnect 2]]\<rparr>
     ''tick'' \<lparr>active_connections = [1, 2, 3]\<rparr>
   = Inr ([1, 2], \<lparr>active_connections = [1, 3]\<rparr>)"
  by (simp add: broadcast_def send_loop.simps disconnect_def connect_def)

section \<open>Claims about the values the steppers write\<close>

text \<open>
  C5. In every scenario, at every step index and for all random numbers, the four
  percentage fields \<open>cpu_utilization\<close>, \<open>ram_usage\<close>, \<open>storage_usage\<close> and
  \<open>bandwidth_usage\<close> of the metrics that the step writes lie between 0 and 100. The
  event that the iteration broadcasts carries these metrics, and so does every one of
  the events of a whole run of the stepper.
\<close>

theorem metrics_within_percent_range:
  "metrics_in_range (metrics (scenario_step c step d s)) \<and>
   (\<exists>ev attempted s' m'.
      iteration c step d net (s, m) = Inr (ev, attempted, s', m') \<and>
      metrics_in_range (event_data ev)) \<and>
   (\<exists>evs s' m'.
      run_scenario c ds nets (s, m) = Inr (evs, s', m') \<and> length evs = step_count c \<and>
      list_all (\<lambda>ev. metrics_in_range (event_data ev)) evs)"
proof (intro conjI)
  show "metrics_in_range (metrics (scenario_step c step d s))"
    by (rule scenario_step_metrics_in_range)
  show "\<exists>ev attempted s' m'.
      iteration c step d net (s, m) = Inr (ev, attempted, s', m') \<and>
      metrics_in_range (event_data ev)"
    using iteration_total [of c step d net s m]
    by (auto simp: metrics_update_event_def scenario_step_metrics_in_range)
  obtain evs s' m' where
    run: "run_scenario c ds nets (s, m) = Inr (evs, s', m')" and
    len: "length evs = step_count c"
    using run_scenario_total by blast
  have "metrics_in_range (event_data ev)" if "ev \<in> set evs" for ev
  proof -
    from run have "run_steps c [0..<step_count c] ds nets
        (s\<lparr>scenario := scenario_name c\<rparr>, m) = Inr (evs, s', m')"
      by (simp add: run_scenario_def)
    from run_steps_events [OF this that] obtain step d s0 where
      "ev = metrics_update_event d (scenario_step c step d s0)" by blast
    then show ?thesis
      by (simp add: metrics_update_event_def scenario_step_metrics_in_range)
  qed
  then have "list_all (\<lambda>ev. metrics_in_range (event_data ev)) evs"
    by (simp add: list_all_iff)
  with run len show "\<exists>evs s' m'.
      run_scenario c ds nets (s, m) = Inr (evs, s', m') \<and> length evs = step_count c \<and>
      list_all (\<lambda>ev. metrics_in_range (event_data ev)) evs"
    by blast
qed

theorem metrics_within_percent_range_witness:
  "metrics (scenario_step Scenario1 29 calm initial_simulation_state) =
     \<lparr>cpu_utilization = 94.8, ram_usage = 79, storage_usage = 63.2, bandwidth_usage = 52.4,
      vm_migration_count = 0\<rparr> \<and>
   metrics_in_range (metrics (scenario_step Scenario1 29 calm initial_simulation_state))"
  using metrics_within_percent_range
    [of Scenario1 29 calm initial_simulation_state delivered "\<lparr>active_connections = []\<rparr>"
        "\<lambda>step. calm" "\<lambda>step. delivered"]
  by (simp add: scenario_1_high_load_step_def calm_def initial_simulation_state_def
        zero_metrics_def normal_def Let_def)

text \<open>
  C6. The claim is that every zone written has a non-negative \<open>vm_count\<close> and a utilization
  between 0 and 100. Scenario 1 bounds the zone utilization from above only
  (\<^verbatim>\<open>min(100, cpu_util + np.random.normal(0, 10))\<close>), where scenarios 2 and 3 and the
  metrics of scenario 1 itself are also bounded from below by \<^verbatim>\<open>max(0, ...)\<close>. At step 0,
  with the deviate of the zone \<open>high_resource_slow\<close> seven standard deviations low and
  every other deviate zero, the utilization written for that zone is \<open>-10\<close>.
\<close>

theorem scenario_1_zone_utilization_negative:
  "zone_status (scenario_1_high_load_step 0 cold (state startup_server)) =
     \<lparr>high_resource_slow = \<lparr>vm_count = 6, utilization = - 10\<rparr>,
      medium = \<lparr>vm_count = 4, utilization = 42\<rparr>,
      fast_small = \<lparr>vm_count = 1, utilization = 24\<rparr>\<rparr> \<and>
   \<not> zone_in_range
       (high_resource_slow (zone_status (scenario_1_high_load_step 0 cold (state startup_server))))"
  by (simp add: scenario_1_high_load_step_def cold_def normal_def randint_def zone_in_range_def
        in_percent_range_def Let_def)

text \<open>
  C7, as claimed: within one scenario run the counts broadcast never decrease. It fails:
  on the server with one subscriber, scenario 3 is started and its task does step 0,
  which broadcasts the count 1; the simulation is reset, which writes the count 0 and
  leaves the task on the loop; the task does step 1 and broadcasts the count 0.
\<close>

theorem vm_migration_count_decreases_counterexample:
  "counts (fst (run_server
      [Resume 0 calm delivered, Reset (\<lambda>i k. 0), Resume 0 calm delivered]
      (snd (start_scenario 3 watched_server)))) = [1, 0] \<and>
   tasks (snd (run_server
      [Resume 0 calm delivered, Reset (\<lambda>i k. 0), Resume 0 calm delivered]
      (snd (start_scenario 3 watched_server)))) =
     [\<lparr>task_coroutine = Scenario3, steps_done = 2\<rparr>]"
  by (simp add: watched_server_simps start_scenario_def start_scenario_try_def
        create_task_def zero_metrics_def resume_task_def iteration_quiet delivered_quiet
        delivered_ok reset_simulation_def initialize_simulation_keeps scenario_3_count
        metrics_update_event_def Let_def
      del: scenario_step.simps)

text \<open>
  C7, amended. \<open>vm_migration_count\<close> is an integer, and every step writes a count that
  is at least the count it read. Through any sequence of requests, handler operations
  and task resumptions, from the server after startup or from any server whose count is
  non-negative, every count broadcast is non-negative. As long as no reset happens, the counts
  broadcast never decrease from one broadcast to the next, whatever else happens in
  between; a reset, which does not stop the stepper, sets the count back to 0.
\<close>

theorem vm_migration_count_monotone_without_reset:
  "vm_migration_count (metrics s) \<le> vm_migration_count (metrics (scenario_step c step d s)) \<and>
   (0 \<le> vm_migration_count (metrics (state srv)) \<longrightarrow>
      list_all (\<lambda>n. 0 \<le> n) (counts (fst (run_server evs srv))) \<and>
      0 \<le> vm_migration_count (metrics (state (snd (run_server evs srv))))) \<and>
   (\<not> list_ex is_reset evs \<longrightarrow>
      sorted (counts (fst (run_server evs srv))) \<and>
      list_all (\<lambda>n. vm_migration_count (metrics (state srv)) \<le> n)
        (counts (fst (run_server evs srv))) \<and>
      vm_migration_count (metrics (state srv))
        \<le> vm_migration_count (metrics (state (snd (run_server evs srv))))) \<and>
   list_all (\<lambda>n. 0 \<le> n) (counts (fst (run_server evs startup_server))) \<and>
   vm_migration_count (metrics (state (snd (reset_simulation z srv)))) = 0"
proof (intro conjI impI)
  have "0 \<le> vm_migration_count (metrics (state startup_server))"
    by (simp add: startup_server_simps zero_metrics_def)
  from run_server_counts [OF this, of evs]
  show "list_all (\<lambda>n. 0 \<le> n) (counts (fst (run_server evs startup_server)))"
    by simp
next
  show "vm_migration_count (metrics s) \<le> vm_migration_count (metrics (scenario_step c step d s))"
    by (rule count_step_mono)
  show "vm_migration_count (metrics (state (snd (reset_simulation z srv)))) = 0"
    by (simp add: reset_simulation_def initialize_simulation_def zero_metrics_def)
next
  assume "0 \<le> vm_migration_count (metrics (state srv))"
  from run_server_counts [OF this, of evs]
  show "list_all (\<lambda>n. 0 \<le> n) (counts (fst (run_server evs srv)))"
    "0 \<le> vm_migration_count (metrics (state (snd (run_server evs srv))))"
    by simp_all
next
  assume "\<not> list_ex is_reset evs"
  from run_server_sorted [OF this, of srv]
  show "sorted (counts (fst (run_server evs srv)))"
    "list_all (\<lambda>n. vm_migration_count (metrics (state srv)) \<le> n)
        (counts (fst (run_server evs srv)))"
    "vm_migration_count (metrics (state srv))
        \<le> vm_migration_count (metrics (state (snd (run_server evs srv))))"
    by simp_all
qed

theorem vm_migration_count_monotone_without_reset_witness:
  "0 \<le> vm_migration_count (metrics (state (snd (start_scenario 3 watched_server)))) \<and>
   \<not> list_ex is_reset
       [Resume 0 calm delivered, Stop, Resume 0 calm delivered, Resume 0 calm delivered,
        Handler (Connect 8), Resume 0 calm delivered, Resume 0 calm delivered] \<and>
   counts (fst (run_server
       [Resume 0 calm delivered, Stop, Resume 0 calm delivered, Resume 0 calm delivered,
        Handler (Connect 8), Resume 0 calm delivered, Resume 0 calm delivered]
       (snd (start_scenario 3 watched_server)))) = [1, 1, 1, 1, 2] \<and>
   sorted (counts (fst (run_server
       [Resume 0 calm delivered, Stop, Resume 0 calm delivered, Resume 0 calm delivered,
        Handler (Connect 8), Resume 0 calm delivered, Resume 0 calm delivered]
       (snd (start_scenario 3 watched_server))))) \<and>
   list_all (\<lambda>n. 0 \<le> n) (counts (fst (run_server
       [Resume 0 calm delivered, Stop, Resume 0 calm delivered, Resume 0 calm delivered,
        Handler (Connect 8), Resume 0 calm delivered, Resume 0 calm delivered]
       (snd (start_scenario 3 watched_server)))))"
  using vm_migration_count_monotone_without_reset
    [of "state watched_server" Scenario3 0 calm "snd (start_scenario 3 watched_server)"
        "[Resume 0 calm delivered, Stop, Resume 0 calm delivered, Resume 0 calm delivered,
          Handler (Connect 8), Resume 0 calm delivered, Resume 0 calm delivered]"
        "\<lambda>i k. 0"]
  by (simp add: watched_server_simps start_scenario_def start_scenario_try_def
        create_task_def zero_metrics_def resume_task_def iteration_quiet delivered_quiet
        delivered_ok stop_simulation_def scenario_3_count connect_def
        metrics_update_event_def Let_def
      del: scenario_step.simps)

section \<open>Claims about the handlers\<close>

text \<open>
  C8. \<^verbatim>\<open>reset_simulation\<close> always answers with success. Afterwards the four
  percentage metrics are 0, \<open>vm_migration_count\<close> is 0, every zone has \<open>vm_count\<close> 0 and
  utilization 0, \<open>running\<close> is false, the scenario is \<open>idle\<close>, and the inventory is the
  newly generated one, whatever it was before: exactly 5 hosts and 15 VMs.
\<close>

theorem reset_yields_baseline:
  "\<exists>srv'. reset_simulation z srv =
            (Inr \<lparr>message = ''Simulation reset'', status = ''success''\<rparr>, srv') \<and>
      metrics (state srv') =
        \<lparr>cpu_utilization = 0, ram_usage = 0, storage_usage = 0, bandwidth_usage = 0,
         vm_migration_count = 0\<rparr> \<and>
      zone_status (state srv') =
        \<lparr>high_resource_slow = \<lparr>vm_count = 0, utilization = 0\<rparr>,
         medium = \<lparr>vm_count = 0, utilization = 0\<rparr>,
         fast_small = \<lparr>vm_count = 0, utilization = 0\<rparr>\<rparr> \<and>
      running (state srv') = False \<and>
      scenario (state srv') = ''idle'' \<and>
      hosts (state srv') = map make_host [0..<5] \<and>
      vms (state srv') = map (make_vm z) [0..<15] \<and>
      length (hosts (state srv')) = 5 \<and>
      length (vms (state srv')) = 15"
  by (simp add: reset_simulation_def initialize_simulation_def zero_metrics_def
        zero_zone_status_def)

text \<open>
  C2. The claim is that a scenario id outside 1, 2, 3, posted while nothing runs, is
  answered with status 400 and leaves \<open>running\<close> false. The handler raises the
  HTTPException with status 400 inside its own \<^verbatim>\<open>try\<close> block, whose
  \<^verbatim>\<open>except Exception\<close> catches it and raises status 500 instead. For id 4 on the server
  after startup the answer is status 500; \<open>running\<close> is false afterwards.
\<close>

theorem start_scenario_invalid_id_gives_500:
  "start_scenario 4 startup_server =
     (Inl (HTTPException 500 (Str (HTTPException 400 (Text ''Invalid scenario ID'')))),
      startup_server) \<and>
   running (state startup_server) = False"
  by (simp add: start_scenario_def start_scenario_try_def startup_server_def
        initialize_simulation_def initial_simulation_state_def)

text \<open>
  C4. A start with a valid id 1, 2 or 3 while \<open>running\<close> is false answers with success,
  sets \<open>running\<close> to true and adds exactly one stepper task, that of the scenario asked
  for, changing nothing else. Any start while \<open>running\<close> is true, whatever the id, is
  rejected with status 400 "Simulation already running" and leaves the server as it was.
\<close>

theorem start_scenario_contract:
  "(scenario_id \<in> {1, 2, 3} \<and> \<not> running (state srv) \<longrightarrow>
      start_scenario scenario_id srv =
        (Inr \<lparr>message = ''Started scenario '' @ str_int scenario_id, status = ''success''\<rparr>,
         srv\<lparr>state := (state srv)\<lparr>running := True\<rparr>,
             tasks := tasks srv @
               [\<lparr>task_coroutine = scenario_coroutine scenario_id, steps_done = 0\<rparr>]\<rparr>)) \<and>
   (running (state srv) \<longrightarrow>
      start_scenario scenario_id srv =
        (Inl (HTTPException 400 (Text ''Simulation already running'')), srv))"
  by (auto simp: start_scenario_def start_scenario_try_def create_task_def
        scenario_coroutine_def)

theorem start_scenario_contract_witness:
  "(2::int) \<in> {1, 2, 3} \<and> \<not> running (state startup_server) \<and>
   fst (start_scenario 2 startup_server) =
     Inr \<lparr>message = ''Started scenario 2'', status = ''success''\<rparr> \<and>
   running (state (snd (start_scenario 2 startup_server))) \<and>
   tasks (snd (start_scenario 2 startup_server)) =
     [\<lparr>task_coroutine = Scenario2, steps_done = 0\<rparr>] \<and>
   start_scenario 3 (snd (start_scenario 2 startup_server)) =
     (Inl (HTTPException 400 (Text ''Simulation already running'')),
      snd (start_scenario 2 startup_server))"
  using start_scenario_contract [of 2 startup_server]
        start_scenario_contract [of 3 "snd (start_scenario 2 startup_server)"]
  by (simp add: startup_server_def initialize_simulation_def initial_simulation_state_def
        scenario_coroutine_def str_int_def digit_char_def)

section \<open>Claims about the stepper tasks\<close>

text \<open>
  C9. A stepper never writes the \<open>running\<close> flag, nor the inventory: a step, a whole run
  of the stepper's coroutine, and any resumption of a task leave \<open>running\<close>, \<open>vms\<close> and
  \<open>hosts\<close> of the simulation state as they were (the stepper writes \<open>scenario\<close>,
  \<open>metrics\<close> and \<open>zone_status\<close> only). A task that is resumed through all of its fixed
  number of steps while \<open>running\<close> is true does every step, returns at the next
  resumption and leaves the task list, and \<open>running\<close> is still true afterwards.
\<close>

theorem stepper_never_writes_running:
  "(running (scenario_step c step d s) = running s \<and>
    vms (scenario_step c step d s) = vms s \<and>
    hosts (scenario_step c step d s) = hosts s) \<and>
   (\<exists>evs s' m'.
      run_scenario c ds nets (s, m) = Inr (evs, s', m') \<and> length evs = step_count c \<and>
      running s' = running s \<and> vms s' = vms s \<and> hosts s' = hosts s) \<and>
   (running (state (snd (resume_task k d net srv))) = running (state srv) \<and>
    vms (state (snd (resume_task k d net srv))) = vms (state srv) \<and>
    hosts (state (snd (resume_task k d net srv))) = hosts (state srv)) \<and>
   (k < length (tasks srv) \<and> steps_done (tasks srv ! k) = 0 \<and>
    length dts = step_count (task_coroutine (tasks srv ! k)) \<and> running (state srv) \<longrightarrow>
      (\<exists>outs srv1 srv2.
         resume_times k dts srv = (outs, srv1) \<and>
         length outs = step_count (task_coroutine (tasks srv ! k)) \<and>
         list_all stepped outs \<and>
         resume_task k d net srv1 = (Returned, srv2) \<and>
         length (tasks srv2) + 1 = length (tasks srv) \<and>
         running (state srv2) \<and>
         vms (state srv2) = vms (state srv) \<and> hosts (state srv2) = hosts (state srv)))"
proof (intro conjI impI)
  show "running (scenario_step c step d s) = running s"
    "vms (scenario_step c step d s) = vms s" "hosts (scenario_step c step d s) = hosts s"
    by (simp_all add: scenario_step_keeps)
  show "running (state (snd (resume_task k d net srv))) = running (state srv)"
    "vms (state (snd (resume_task k d net srv))) = vms (state srv)"
    "hosts (state (snd (resume_task k d net srv))) = hosts (state srv)"
    by (simp_all add: resume_task_keeps)
next
  obtain evs s' m' where
    run: "run_scenario c ds nets (s, m) = Inr (evs, s', m')" and
    len: "length evs = step_count c"
    using run_scenario_total by blast
  then have "run_steps c [0..<step_count c] ds nets (s\<lparr>scenario := scenario_name c\<rparr>, m)
               = Inr (evs, s', m')"
    by (simp add: run_scenario_def)
  from run_steps_keeps [OF this] run len
  show "\<exists>evs s' m'.
      run_scenario c ds nets (s, m) = Inr (evs, s', m') \<and> length evs = step_count c \<and>
      running s' = running s \<and> vms s' = vms s \<and> hosts s' = hosts s"
    by simp
next
  assume a: "k < length (tasks srv) \<and> steps_done (tasks srv ! k) = 0 \<and>
    length dts = step_count (task_coroutine (tasks srv ! k)) \<and> running (state srv)"
  then have k: "k < length (tasks srv)"
    and fits: "steps_done (tasks srv ! k) + length dts
                 \<le> step_count (task_coroutine (tasks srv ! k))"
    by simp_all
  from resume_times_steps [OF k fits] obtain outs srv1 where
    r: "resume_times k dts srv = (outs, srv1)" "length outs = length dts"
      "list_all stepped outs" "length (tasks srv1) = length (tasks srv)"
      "task_coroutine (tasks srv1 ! k) = task_coroutine (tasks srv ! k)"
      "steps_done (tasks srv1 ! k) = steps_done (tasks srv ! k) + length dts"
      "running (state srv1) = running (state srv)"
      "vms (state srv1) = vms (state srv)" "hosts (state srv1) = hosts (state srv)"
    by blast
  let ?srv2 = "srv1\<lparr>tasks := drop_task k (tasks srv1)\<rparr>"
  from r a have k1: "k < length (tasks srv1)"
    and fin: "step_count (task_coroutine (tasks srv1 ! k)) \<le> steps_done (tasks srv1 ! k)"
    by simp_all
  from resume_task_returned [OF k1 fin]
  have ret: "resume_task k d net srv1 = (Returned, ?srv2)" .
  from length_drop_task [OF k1] r have "length (tasks ?srv2) + 1 = length (tasks srv)"
    by simp
  with r a ret show "\<exists>outs srv1 srv2.
         resume_times k dts srv = (outs, srv1) \<and>
         length outs = step_count (task_coroutine (tasks srv ! k)) \<and>
         list_all stepped outs \<and>
         resume_task k d net srv1 = (Returned, srv2) \<and>
         length (tasks srv2) + 1 = length (tasks srv) \<and>
         running (state srv2) \<and>
         vms (state srv2) = vms (state srv) \<and> hosts (state srv2) = hosts (state srv)"
    by (intro exI [of _ outs] exI [of _ srv1] exI [of _ ?srv2]) simp
qed


theorem stepper_never_writes_running_witness:
  "0 < length (tasks (snd (start_scenario 3 startup_server))) \<and>
   steps_done (tasks (snd (start_scenario 3 startup_server)) ! 0) = 0 \<and>
   length (replicate 20 (calm, delivered)) =
     step_count (task_coroutine (tasks (snd (start_scenario 3 startup_server)) ! 0)) \<and>
   running (state (snd (start_scenario 3 startup_server))) \<and>
   (\<exists>outs srv1 srv2.
      resume_times 0 (replicate 20 (calm, delivered)) (snd (start_scenario 3 startup_server))
        = (outs, srv1) \<and>
      length outs = 20 \<and> list_all stepped outs \<and>
      resume_task 0 calm delivered srv1 = (Returned, srv2) \<and>
      length (tasks srv2) + 1 = length (tasks (snd (start_scenario 3 startup_server))) \<and>
      running (state srv2) \<and>
      vms (state srv2) = vms (state startup_server) \<and>
      hosts (state srv2) = hosts (state startup_server))"
  using stepper_never_writes_running
    [of Scenario3 0 calm "state startup_server" "\<lambda>step. calm" "\<lambda>step. delivered"
        "manager startup_server" 0 delivered "snd (start_scenario 3 startup_server)"
        "replicate 20 (calm, delivered)"]
  by (simp add: start_scenario_def start_scenario_try_def create_task_def startup_server_def
        initialize_simulation_def initial_simulation_state_def)

text \<open>
  C1, as claimed: after \<^verbatim>\<open>stop_simulation\<close> an active stepper does no further step.
  It fails: on the server with one subscriber, scenario 1 is started, its task does
  step 0, and the simulation is stopped (\<open>running\<close> is false, the task is still on the
  loop). Resumed, the task does step 1: it writes the metrics of step 1 over those of
  step 0 and broadcasts them to the subscriber.
\<close>

theorem stop_cancels_stepper_counterexample:
  "running (state (snd (stop_simulation (snd (resume_task 0 calm delivered
      (snd (start_scenario 1 watched_server))))))) = False \<and>
   tasks (snd (stop_simulation (snd (resume_task 0 calm delivered
      (snd (start_scenario 1 watched_server)))))) =
     [\<lparr>task_coroutine = Scenario1, steps_done = 1\<rparr>] \<and>
   fst (resume_task 0 calm delivered
     (snd (stop_simulation (snd (resume_task 0 calm delivered
        (snd (start_scenario 1 watched_server))))))) =
     Stepped
       \<lparr>event_type = ''metrics_update'',
        event_data =
          \<lparr>cpu_utilization = 61.2, ram_usage = 51, storage_usage = 40.8,
           bandwidth_usage = 35.6, vm_migration_count = 0\<rparr>,
        event_zone_status =
          \<lparr>high_resource_slow = \<lparr>vm_count = 6, utilization = 61.2\<rparr>,
           medium = \<lparr>vm_count = 4, utilization = 42.84\<rparr>,
           fast_small = \<lparr>vm_count = 1, utilization = 24.48\<rparr>\<rparr>,
        event_timestamp = ''t''\<rparr>
       [7] \<and>
   metrics (state (snd (stop_simulation (snd (resume_task 0 calm delivered
      (snd (start_scenario 1 watched_server))))))) =
     \<lparr>cpu_utilization = 60, ram_usage = 50, storage_usage = 40,
      bandwidth_usage = 35, vm_migration_count = 0\<rparr> \<and>
   metrics (state (snd (resume_task 0 calm delivered
     (snd (stop_simulation (snd (resume_task 0 calm delivered
        (snd (start_scenario 1 watched_server))))))))) =
     \<lparr>cpu_utilization = 61.2, ram_usage = 51, storage_usage = 40.8,
      bandwidth_usage = 35.6, vm_migration_count = 0\<rparr>"
  by (simp add: watched_server_simps start_scenario_def start_scenario_try_def
        create_task_def zero_metrics_def resume_task_def iteration_quiet
        delivered_quiet delivered_ok
        stop_simulation_def scenario_1_high_load_step_def metrics_update_event_def
        calm_def normal_def randint_def Let_def)


text \<open>
  C1, amended. \<^verbatim>\<open>stop_simulation\<close> always succeeds and sets \<open>running\<close> to false and
  the scenario to \<open>idle\<close>; it leaves the tasks alone, and no stepper reads the flag. A
  task with steps left that is resumed after the stop does its next step as it would
  have without the stop: the same event is broadcast with the same deliveries attempted
  (to every registered connection, when no other task touches the registry during the
  pass), and its metrics and zone status are written to the state. Resumed further, the
  task does every one of its remaining steps.
\<close>

theorem stop_does_not_cancel_stepper:
  "stop_simulation srv =
     (Inr \<lparr>message = ''Simulation stopped'', status = ''success''\<rparr>,
      srv\<lparr>state := (state srv)\<lparr>running := False, scenario := ''idle''\<rparr>\<rparr>) \<and>
   (k < length (tasks srv) \<and>
    steps_done (tasks srv ! k) < step_count (task_coroutine (tasks srv ! k)) \<longrightarrow>
      (\<exists>ev att srv'.
         resume_task k d net (snd (stop_simulation srv)) = (Stepped ev att, srv') \<and>
         fst (resume_task k d net srv) = Stepped ev att \<and>
         (others net = [] \<longrightarrow> att = active_connections (manager srv)) \<and>
         metrics (state srv') = event_data ev \<and>
         zone_status (state srv') = event_zone_status ev \<and>
         event_data ev =
           metrics (scenario_step (task_coroutine (tasks srv ! k))
                      (steps_done (tasks srv ! k)) d (state srv)))) \<and>
   (k < length (tasks srv) \<and>
    steps_done (tasks srv ! k) + length dts \<le> step_count (task_coroutine (tasks srv ! k)) \<longrightarrow>
      (\<exists>outs srv'.
         resume_times k dts (snd (stop_simulation srv)) = (outs, srv') \<and>
         length outs = length dts \<and> list_all stepped outs \<and>
         steps_done (tasks srv' ! k) = steps_done (tasks srv ! k) + length dts \<and>
         running (state srv') = False))"
proof (intro conjI impI)
  show "stop_simulation srv =
     (Inr \<lparr>message = ''Simulation stopped'', status = ''success''\<rparr>,
      srv\<lparr>state := (state srv)\<lparr>running := False, scenario := ''idle''\<rparr>\<rparr>)"
    by (simp add: stop_simulation_def)
next
  let ?stopped = "snd (stop_simulation srv)"
  assume "k < length (tasks srv) \<and>
    steps_done (tasks srv ! k) < step_count (task_coroutine (tasks srv ! k))"
  then have k: "k < length (tasks ?stopped)"
    and less: "steps_done (tasks ?stopped ! k)
                 < step_count (task_coroutine (tasks ?stopped ! k))"
    and k0: "k < length (tasks srv)"
    and less0: "steps_done (tasks srv ! k) < step_count (task_coroutine (tasks srv ! k))"
    by (simp_all add: stop_simulation_def)
  have same: "metrics (state ?stopped) = metrics (state srv)"
    "tasks ?stopped = tasks srv" "manager ?stopped = manager srv"
    by (simp_all add: stop_simulation_def)
  from scenario_step_reads_metrics_only [OF same(1)]
  have step: "metrics (scenario_step c n d (state ?stopped))
                = metrics (scenario_step c n d (state srv))"
    "zone_status (scenario_step c n d (state ?stopped))
                = zone_status (scenario_step c n d (state srv))" for c n
    by simp_all
  from resume_task_stepped [OF k less, of d net] obtain ev srv' where
    r: "resume_task k d net ?stopped = (Stepped ev (attempts net ev (manager ?stopped)), srv')"
      "event_data ev = metrics (state srv')" "event_zone_status ev = zone_status (state srv')"
      "metrics (state srv') =
         metrics (scenario_step (task_coroutine (tasks ?stopped ! k))
                    (steps_done (tasks ?stopped ! k)) d (state ?stopped))"
    by blast
  from resume_task_event [OF k less, of d net] resume_task_event [OF k0 less0, of d net]
  have "fst (resume_task k d net ?stopped) = fst (resume_task k d net srv)"
    by (simp add: same step)
  with r have unstopped:
    "fst (resume_task k d net srv) = Stepped ev (attempts net ev (manager srv))"
    by (simp add: same)
  have quiet: "others net = [] \<longrightarrow>
                 attempts net ev (manager srv) = active_connections (manager srv)"
    by (simp add: attempts_quiet)
  from r unstopped quiet show "\<exists>ev att srv'.
         resume_task k d net ?stopped = (Stepped ev att, srv') \<and>
         fst (resume_task k d net srv) = Stepped ev att \<and>
         (others net = [] \<longrightarrow> att = active_connections (manager srv)) \<and>
         metrics (state srv') = event_data ev \<and>
         zone_status (state srv') = event_zone_status ev \<and>
         event_data ev =
           metrics (scenario_step (task_coroutine (tasks srv ! k))
                      (steps_done (tasks srv ! k)) d (state srv))"
    by (intro exI [of _ ev] exI [of _ "attempts net ev (manager srv)"] exI [of _ srv'])
       (simp add: same step)
next
  let ?stopped = "snd (stop_simulation srv)"
  assume "k < length (tasks srv) \<and>
    steps_done (tasks srv ! k) + length dts \<le> step_count (task_coroutine (tasks srv ! k))"
  then have k: "k < length (tasks ?stopped)"
    and fits: "steps_done (tasks ?stopped ! k) + length dts
                 \<le> step_count (task_coroutine (tasks ?stopped ! k))"
    by (simp_all add: stop_simulation_def)
  have same: "tasks ?stopped = tasks srv" "running (state ?stopped) = False"
    by (simp_all add: stop_simulation_def)
  from resume_times_steps [OF k fits] obtain outs srv' where
    "resume_times k dts ?stopped = (outs, srv')" "length outs = length dts"
    "list_all stepped outs"
    "steps_done (tasks srv' ! k) = steps_done (tasks ?stopped ! k) + length dts"
    "running (state srv') = running (state ?stopped)"
    by blast
  then show "\<exists>outs srv'.
         resume_times k dts ?stopped = (outs, srv') \<and>
         length outs = length dts \<and> list_all stepped outs \<and>
         steps_done (tasks srv' ! k) = steps_done (tasks srv ! k) + length dts \<and>
         running (state srv') = False"
    by (intro exI [of _ outs] exI [of _ srv']) (simp add: same)
qed

theorem stop_does_not_cancel_stepper_witness:
  "0 < length (tasks stepping_server) \<and>
   steps_done (tasks stepping_server ! 0) < step_count (task_coroutine (tasks stepping_server ! 0)) \<and>
   steps_done (tasks stepping_server ! 0) + length (replicate 29 (calm, delivered))
     \<le> step_count (task_coroutine (tasks stepping_server ! 0)) \<and>
   others delivered = [] \<and>
   running (state stepping_server) \<and>
   \<not> running (state (snd (stop_simulation stepping_server))) \<and>
   (\<exists>ev srv'.
      resume_task 0 calm delivered (snd (stop_simulation stepping_server)) =
        (Stepped ev [7], srv') \<and>
      fst (resume_task 0 calm delivered stepping_server) = Stepped ev [7] \<and>
      metrics (state srv') = event_data ev \<and>
      zone_status (state srv') = event_zone_status ev) \<and>
   (\<exists>outs srv'.
      resume_times 0 (replicate 29 (calm, delivered)) (snd (stop_simulation stepping_server))
        = (outs, srv') \<and>
      length outs = 29 \<and> list_all stepped outs \<and>
      steps_done (tasks srv' ! 0) = 30 \<and> running (state srv') = False)"
proof -
  note t = stepping_server_tasks
  have quiet: "others delivered = []" by (rule delivered_quiet)
  have h1: "0 < length (tasks stepping_server) \<and>
      steps_done (tasks stepping_server ! 0)
        < step_count (task_coroutine (tasks stepping_server ! 0))"
    by (simp add: t)
  have h2: "0 < length (tasks stepping_server) \<and>
      steps_done (tasks stepping_server ! 0) + length (replicate 29 (calm, delivered))
        \<le> step_count (task_coroutine (tasks stepping_server ! 0))"
    by (simp add: t)
  note inst = stop_does_not_cancel_stepper
    [of stepping_server 0 calm delivered "replicate 29 (calm, delivered)"]
  from inst h1 quiet obtain ev att srv' where
    a: "resume_task 0 calm delivered (snd (stop_simulation stepping_server)) =
          (Stepped ev att, srv')"
       "fst (resume_task 0 calm delivered stepping_server) = Stepped ev att"
       "att = active_connections (manager stepping_server)"
       "metrics (state srv') = event_data ev"
       "zone_status (state srv') = event_zone_status ev"
    by blast
  from inst h2 obtain outs srv'' where
    b: "resume_times 0 (replicate 29 (calm, delivered)) (snd (stop_simulation stepping_server))
          = (outs, srv'')"
       "length outs = length (replicate 29 (calm, delivered))" "list_all stepped outs"
       "steps_done (tasks srv'' ! 0) =
          steps_done (tasks stepping_server ! 0) + length (replicate 29 (calm, delivered))"
       "running (state srv'') = False"
    by blast
  have stopped: "\<not> running (state (snd (stop_simulation stepping_server)))"
    by (simp add: stop_simulation_def)
  from a have "\<exists>ev srv'.
      resume_task 0 calm delivered (snd (stop_simulation stepping_server)) =
        (Stepped ev [7], srv') \<and>
      fst (resume_task 0 calm delivered stepping_server) = Stepped ev [7] \<and>
      metrics (state srv') = event_data ev \<and>
      zone_status (state srv') = event_zone_status ev"
    by (intro exI [of _ ev] exI [of _ srv']) (simp add: t)
  moreover from b have "\<exists>outs srv'.
      resume_times 0 (replicate 29 (calm, delivered)) (snd (stop_simulation stepping_server))
        = (outs, srv') \<and>
      length outs = 29 \<and> list_all stepped outs \<and>
      steps_done (tasks srv' ! 0) = 30 \<and> running (state srv') = False"
    by (intro exI [of _ outs] exI [of _ srv'']) (simp add: t)
  ultimately show ?thesis using h1 h2 stopped t quiet by (intro conjI) simp_all
qed

end
